theory Spec2Isabelle
  imports Main "HOL-Library.Sublist" "HOL-Library.AList"
begin

section \<open>JavaScript values\<close>

text \<open>
  The values the library inspects at run time: metadata mappings, thrown values, error
  objects and socket payloads. Numbers are integers here (no claim depends on fractions
  or NaN). An object is the list of its properties in \<open>Object.entries\<close> order; property
  names are distinct. A string is the list of its bytes (a string with characters
  outside ASCII is its UTF-8 encoding).
\<close>

datatype jsval =
    JUndefined
  | JNull
  | JBool bool
  | JNum int
  | JStr string
  | JArr "jsval list"
  | JObj "(string \<times> jsval) list"

text \<open>Truthiness, as \<open>||\<close>, \<open>&&\<close>, \<open>!!\<close> and \<open>if\<close> use it.\<close>

fun truthy :: "jsval \<Rightarrow> bool" where
  "truthy JUndefined = False"
| "truthy JNull = False"
| "truthy (JBool b) = b"
| "truthy (JNum n) = (n \<noteq> 0)"
| "truthy (JStr s) = (s \<noteq> [])"
| "truthy (JArr xs) = True"
| "truthy (JObj fs) = True"

text \<open>\<open>k in o\<close> and \<open>o.k\<close> on the property list of an object.\<close>

definition has_prop :: "(string \<times> jsval) list \<Rightarrow> string \<Rightarrow> bool" where
  "has_prop fs k = (map_of fs k \<noteq> None)"

definition get_prop :: "(string \<times> jsval) list \<Rightarrow> string \<Rightarrow> jsval" where
  "get_prop fs k = (case map_of fs k of None \<Rightarrow> JUndefined | Some v \<Rightarrow> v)"

text \<open>
  A thrown value is an instance of \<open>Error\<close> (its properties, \<open>message\<close> among them) or any
  other value; \<open>error instanceof Error\<close> tells them apart.
\<close>

datatype thrown = ErrorInstance "(string \<times> jsval) list" | NonError jsval

section \<open>HTTP metrics middleware (middlewares/http-metrics.ts)\<close>

record request =
  req_method :: string
  req_path :: string
  req_baseUrl :: string
  req_route_path :: "string option"

record http_metric =
  hm_method :: string
  hm_route :: string
  hm_statusCode :: nat
  hm_durationMs :: int

text \<open>
  What the middleware acts on: the \<open>finish\<close> listeners it has registered on the response
  (each closure is its captured request and start time), the calls of \<open>next\<close>, and the
  request metrics recorded by \<open>getMetrics().recordHttpRequest\<close>.
\<close>

record http_state =
  finish_listeners :: "(request \<times> int) list"
  next_calls :: nat
  http_metrics :: "http_metric list"

definition ignoredPaths :: "string list" where
  "ignoredPaths = [''/health'', ''/healthz'', ''/ready'', ''/metrics'', ''/favicon.ico'']"

definition shouldIgnore :: "string \<Rightarrow> bool" where
  "shouldIgnore path = list_ex (\<lambda>ignored. prefix ignored path) ignoredPaths"

definition is_digit :: "char \<Rightarrow> bool" where
  "is_digit c = (c \<in> set ''0123456789'')"

definition is_hex :: "char \<Rightarrow> bool" where
  "is_hex c = (c \<in> set ''0123456789abcdefABCDEF'')"

text \<open>
  The regular expression \<open>[0-9a-f]{8}-[0-9a-f]{4}-[0-9a-f]{4}-[0-9a-f]{4}-[0-9a-f]{12}\<close>
  with flag \<open>i\<close> is a sequence of 36 character classes: a hex digit (\<open>True\<close>) or a
  hyphen (\<open>False\<close>). \<open>match_classes\<close> matches such a sequence at the start of a string.
\<close>

definition uuid_classes :: "bool list" where
  "uuid_classes =
     replicate 8 True @ [False] @ replicate 4 True @ [False] @ replicate 4 True @ [False] @
     replicate 4 True @ [False] @ replicate 12 True"

fun match_classes :: "bool list \<Rightarrow> string \<Rightarrow> bool" where
  "match_classes [] s = True"
| "match_classes (t # ts) [] = False"
| "match_classes (t # ts) (c # cs) =
     ((if t then is_hex c else c = CHR ''-'') \<and> match_classes ts cs)"

definition uuid_at :: "string \<Rightarrow> bool" where
  "uuid_at s = match_classes uuid_classes s"

text \<open>
  \<open>.replace(/uuid/gi, ':id')\<close>: scan from the left; where the 36-character pattern
  matches, emit \<open>:id\<close> and skip the 36 matched characters (the counter), else copy one
  character.
\<close>

fun replace_uuid :: "nat \<Rightarrow> string \<Rightarrow> string" where
  "replace_uuid k [] = []"
| "replace_uuid (Suc k) (c # cs) = replace_uuid k cs"
| "replace_uuid 0 (c # cs) =
     (if uuid_at (c # cs) then '':id'' @ replace_uuid 35 cs else c # replace_uuid 0 cs)"

text \<open>
  \<open>.replace(/\/\d+/g, '/:id')\<close>: a slash followed by at least one digit is replaced,
  together with the whole run of digits after it (greedy \<open>+\<close>).
\<close>

function replace_slash_digits :: "string \<Rightarrow> string" where
  "replace_slash_digits [] = []"
| "replace_slash_digits (c # cs) =
     (if c = CHR ''/'' \<and> cs \<noteq> [] \<and> is_digit (hd cs)
      then ''/:id'' @ replace_slash_digits (dropWhile is_digit cs)
      else c # replace_slash_digits cs)"
  by pat_completeness auto
termination
  by (relation "measure length") (auto simp: le_imp_less_Suc length_dropWhile_le)

text \<open>
  \<open>getRoute(req)\<close>: the route template matched by the framework when there is one,
  else the path after both replacements. (The source's second test, on \<open>req.baseUrl\<close>,
  can hold only when the first one does, so its branch is never taken.)
\<close>

definition getRoute :: "request \<Rightarrow> string" where
  "getRoute req =
     (case req_route_path req of
        Some p \<Rightarrow> if p \<noteq> [] then p else replace_slash_digits (replace_uuid 0 (req_path req))
      | None \<Rightarrow> replace_slash_digits (replace_uuid 0 (req_path req)))"

text \<open>
  \<open>httpMetricsMiddleware(req, res, next)\<close> at time \<open>now\<close>. An ignored path returns
  \<open>next()\<close> at once; otherwise a \<open>finish\<close> listener is registered before \<open>next()\<close>.
\<close>

definition httpMetricsMiddleware :: "request \<Rightarrow> int \<Rightarrow> http_state \<Rightarrow> http_state" where
  "httpMetricsMiddleware req now st =
     (if shouldIgnore (req_path req)
      then st\<lparr>next_calls := Suc (next_calls st)\<rparr>
      else st\<lparr>finish_listeners := finish_listeners st @ [(req, now)],
              next_calls := Suc (next_calls st)\<rparr>)"

text \<open>The listener body, run when the response finishes with \<open>statusCode\<close> at time \<open>now\<close>.\<close>

definition on_finish :: "nat \<Rightarrow> int \<Rightarrow> request \<times> int \<Rightarrow> http_metric" where
  "on_finish statusCode now l =
     \<lparr>hm_method = req_method (fst l), hm_route = getRoute (fst l),
      hm_statusCode = statusCode, hm_durationMs = now - snd l\<rparr>"

definition emit_finish :: "nat \<Rightarrow> int \<Rightarrow> http_state \<Rightarrow> http_state" where
  "emit_finish statusCode now st =
     st\<lparr>http_metrics := http_metrics st @ map (on_finish statusCode now) (finish_listeners st)\<rparr>"

text \<open>
  Where the two patterns match. \<open>uuid_free pre r\<close>: in the string \<open>pre @ r\<close> no match of
  the UUID pattern starts within \<open>pre\<close>. \<open>slash_digit_at s\<close>: the pattern \<open>/\d+\<close> matches
  at the start of \<open>s\<close>; \<open>slash_digit_free pre r\<close>: in \<open>pre @ r\<close> no match of it starts
  within \<open>pre\<close>. \<open>digit_run ds rest\<close>: \<open>ds\<close> is a run of digits that ends where \<open>rest\<close>
  begins.
\<close>

definition uuid_free :: "string \<Rightarrow> string \<Rightarrow> bool" where
  "uuid_free pre r = list_all (\<lambda>i. \<not> uuid_at (drop i pre @ r)) [0..<length pre]"

definition slash_digit_at :: "string \<Rightarrow> bool" where
  "slash_digit_at s = (case s of c # d # t \<Rightarrow> c = CHR ''/'' \<and> is_digit d | _ \<Rightarrow> False)"

definition slash_digit_free :: "string \<Rightarrow> string \<Rightarrow> bool" where
  "slash_digit_free pre r = list_all (\<lambda>i. \<not> slash_digit_at (drop i pre @ r)) [0..<length pre]"

definition digit_run :: "string \<Rightarrow> string \<Rightarrow> bool" where
  "digit_run ds rest = (ds \<noteq> [] \<and> list_all is_digit ds \<and> (rest = [] \<or> \<not> is_digit (hd rest)))"

text \<open>
  The claimed normalisation, segment by segment: a path is its segments, each written
  after a slash; a UUID-shaped or purely numeric segment becomes \<open>:id\<close>, any other
  segment is kept.
\<close>

definition join_path :: "string list \<Rightarrow> string" where
  "join_path segs = concat (map (\<lambda>s. CHR ''/'' # s) segs)"

definition uuid_segment :: "string \<Rightarrow> bool" where
  "uuid_segment s = (length s = 36 \<and> uuid_at s)"

definition numeric_segment :: "string \<Rightarrow> bool" where
  "numeric_segment s = (s \<noteq> [] \<and> list_all is_digit s)"

definition normalize_segment :: "string \<Rightarrow> string" where
  "normalize_segment s = (if uuid_segment s \<or> numeric_segment s then '':id'' else s)"

text \<open>
  A segment that the two replacements cannot touch: it has no slash, no UUID-shaped
  substring, and does not begin with a digit.
\<close>

definition plain_segment :: "string \<Rightarrow> bool" where
  "plain_segment s =
     (CHR ''/'' \<notin> set s \<and> list_all (\<lambda>i. \<not> uuid_at (drop i s)) [0..<length s] \<and>
      (s = [] \<or> \<not> is_digit (hd s)))"

text \<open>The two passes of \<open>getRoute\<close> seen on one segment.\<close>

definition pass1 :: "string \<Rightarrow> string" where
  "pass1 s = (if uuid_segment s then '':id'' else s)"

definition pass2 :: "string \<Rightarrow> string" where
  "pass2 s = (if numeric_segment s then '':id'' else s)"

definition req_users_uuid :: request where
  "req_users_uuid =
     \<lparr>req_method = ''GET'', req_path = ''/users/123e4567-e89b-12d3-a456-426614174000'',
      req_baseUrl = [], req_route_path = None\<rparr>"

definition uuid_example :: string where
  "uuid_example = ''123e4567-e89b-12d3-a456-426614174000''"

definition req_2fa_42 :: request where
  "req_2fa_42 =
     \<lparr>req_method = ''GET'', req_path = ''/2fa/42'', req_baseUrl = [], req_route_path = None\<rparr>"

definition req_users_123abc :: request where
  "req_users_123abc =
     \<lparr>req_method = ''GET'', req_path = ''/users/123abc'',
      req_baseUrl = [], req_route_path = None\<rparr>"

section \<open>Error middleware (middlewares/error-handler.ts)\<close>

datatype ErrorType =
    AXIOS | PRISMA_KNOWN | PRISMA_UNKNOWN | PRISMA_VALIDATION
  | HTTP | WEBSOCKET | RABBITMQ | GENERIC

fun ErrorType_value :: "ErrorType \<Rightarrow> string" where
  "ErrorType_value AXIOS = ''AxiosError''"
| "ErrorType_value PRISMA_KNOWN = ''PrismaClientKnownRequestError''"
| "ErrorType_value PRISMA_UNKNOWN = ''PrismaClientUnknownRequestError''"
| "ErrorType_value PRISMA_VALIDATION = ''PrismaClientValidationError''"
| "ErrorType_value HTTP = ''HttpError''"
| "ErrorType_value WEBSOCKET = ''WebSocketError''"
| "ErrorType_value RABBITMQ = ''RabbitMQError''"
| "ErrorType_value GENERIC = ''Error''"

text \<open>
  The middleware is typed to receive an \<open>Error\<close>, so the error is an object: its
  property list (own and inherited properties alike, as \<open>in\<close> sees them). A string or a
  number passed as the error has none of the properties read here and behaves as the
  empty list.
\<close>

type_synonym error_obj = "(string \<times> jsval) list"

definition isAxiosError :: "error_obj \<Rightarrow> bool" where
  "isAxiosError error = (has_prop error ''isAxiosError'' \<and> truthy (get_prop error ''isAxiosError''))"

definition isPrismaKnownRequestError :: "error_obj \<Rightarrow> bool" where
  "isPrismaKnownRequestError error =
     (has_prop error ''code'' \<and> has_prop error ''clientVersion'' \<and> has_prop error ''name'' \<and>
      get_prop error ''name'' = JStr ''PrismaClientKnownRequestError'')"

definition classifyError :: "error_obj \<Rightarrow> ErrorType" where
  "classifyError error =
     (if isAxiosError error then AXIOS
      else if isPrismaKnownRequestError error then PRISMA_KNOWN
      else GENERIC)"

text \<open>
  The arguments of \<open>res.status(statusCode).json({error: {message, type}})\<close>.
\<close>

record error_response =
  res_status :: jsval
  res_body_message :: jsval
  res_body_type :: string

text \<open>
  \<open>res.status(code).json(body)\<close> belongs to the web framework. It is the parameter
  \<open>res_status_json\<close>: \<open>None\<close> when the framework takes the status code and sends the
  response, \<open>Some e\<close> when the call throws \<open>e\<close> and nothing is sent (the framework, or the
  HTTP layer under it, refuses a status code outside 100..999 with a \<open>RangeError\<close>).

  \<open>observabilityErrorMiddleware(error, req, res, next)\<close>: \<open>Inr r\<close> is a call that sent the
  response \<open>r\<close>, \<open>Inl e\<close> a call that threw \<open>e\<close> at its last statement and sent nothing.
  The status code is \<open>error.status || 500\<close>.
\<close>

definition observabilityErrorMiddleware ::
  "(jsval \<Rightarrow> thrown option) \<Rightarrow> error_obj \<Rightarrow> thrown + error_response" where
  "observabilityErrorMiddleware res_status_json error =
     (let errorType = classifyError error;
          statusCode = (if truthy (get_prop error ''status'') then get_prop error ''status''
                        else JNum 500)
      in case res_status_json statusCode of
           Some e \<Rightarrow> Inl e
         | None \<Rightarrow> Inr \<lparr>res_status = statusCode,
                         res_body_message = get_prop error ''message'',
                         res_body_type = ErrorType_value errorType\<rparr>)"

text \<open>
  A framework that takes exactly the integers from 100 to 999 as status codes, as the
  examples below use it.
\<close>

definition invalid_status_code :: "jsval \<Rightarrow> thrown" where
  "invalid_status_code code =
     ErrorInstance [(''name'', JStr ''RangeError''), (''message'', JStr ''Invalid status code''),
                    (''code'', code)]"

definition range_checked_status_json :: "jsval \<Rightarrow> thrown option" where
  "range_checked_status_json code =
     (case code of
        JNum n \<Rightarrow> if 100 \<le> n \<and> n \<le> 999 then None else Some (invalid_status_code code)
      | _ \<Rightarrow> Some (invalid_status_code code))"

definition error_status0_axios_prisma :: error_obj where
  "error_status0_axios_prisma =
     [(''name'', JStr ''PrismaClientKnownRequestError''), (''message'', JStr ''boom''),
      (''status'', JNum 0), (''isAxiosError'', JBool True),
      (''code'', JStr ''P2002''), (''clientVersion'', JStr ''5.0.0'')]"

definition error_not_found :: error_obj where
  "error_not_found =
     [(''name'', JStr ''NotFoundError''), (''message'', JStr ''no such user''),
      (''status'', JNum 404)]"

definition error_plain :: error_obj where
  "error_plain = [(''name'', JStr ''Error''), (''message'', JStr ''boom'')]"

definition error_status_null :: error_obj where
  "error_status_null =
     [(''name'', JStr ''Error''), (''message'', JStr ''boom''), (''status'', JNull)]"

definition error_status_1000 :: error_obj where
  "error_status_1000 =
     [(''name'', JStr ''Error''), (''message'', JStr ''boom''), (''status'', JNum 1000)]"

section \<open>Objects as property lists\<close>

text \<open>
  An object is the list of its own enumerable properties. An assignment \<open>o[k] = v\<close>
  replaces the value of an existing property in place and appends a new one; for the
  name \<open>__proto__\<close>, on an object that has no own property of that name, it calls the
  prototype setter instead, so the object gets no property. An object literal or a
  spread \<open>{...a, ...b}\<close> defines properties (also one named \<open>__proto__\<close>, when copied
  from \<open>b\<close>); \<open>Object.assign(a, b)\<close> assigns them. (JavaScript lists the names that are
  array indices first; here they stay where they were added, and no statement below
  depends on their place.)
\<close>

definition obj_define :: "(string \<times> jsval) list \<Rightarrow> string \<Rightarrow> jsval \<Rightarrow> (string \<times> jsval) list" where
  "obj_define obj k v = AList.update k v obj"

definition obj_set :: "(string \<times> jsval) list \<Rightarrow> string \<Rightarrow> jsval \<Rightarrow> (string \<times> jsval) list" where
  "obj_set obj k v =
     (if k = ''__proto__'' \<and> map_of obj k = None then obj else AList.update k v obj)"

definition obj_spread :: "(string \<times> jsval) list \<Rightarrow> (string \<times> jsval) list \<Rightarrow> (string \<times> jsval) list" where
  "obj_spread a b = fold (\<lambda>kv acc. obj_define acc (fst kv) (snd kv)) b a"

definition obj_assign :: "(string \<times> jsval) list \<Rightarrow> (string \<times> jsval) list \<Rightarrow> (string \<times> jsval) list" where
  "obj_assign a b = fold (\<lambda>kv acc. obj_set acc (fst kv) (snd kv)) b a"

text \<open>Decimal rendering of an array index, as property names of arrays and strings.\<close>

definition digit_char :: "nat \<Rightarrow> char" where
  "digit_char d = ''0123456789'' ! (d mod 10)"

function dec_str :: "nat \<Rightarrow> string" where
  "dec_str n = (if n < 10 then [digit_char n] else dec_str (n div 10) @ [digit_char (n mod 10)])"
  by pat_completeness auto
termination
  by (relation "measure id") auto

fun index_from :: "nat \<Rightarrow> 'a list \<Rightarrow> (string \<times> 'a) list" where
  "index_from i [] = []"
| "index_from i (x # xs) = (dec_str i, x) # index_from (Suc i) xs"

definition index_entries :: "'a list \<Rightarrow> (string \<times> 'a) list" where
  "index_entries xs = index_from 0 xs"

text \<open>
  \<open>Object.entries(v)\<close>, which is also what a spread \<open>...v\<close> copies: the properties of an
  object, the indexed elements of an array, the indexed characters of a string, and
  nothing for the other primitives.
\<close>

fun own_entries :: "jsval \<Rightarrow> (string \<times> jsval) list" where
  "own_entries (JObj fs) = fs"
| "own_entries (JArr xs) = index_entries xs"
| "own_entries (JStr s) = index_entries (map (\<lambda>c. JStr [c]) s)"
| "own_entries v = []"

text \<open>
  \<open>String.prototype.toLowerCase\<close> is the runtime's and folds all of Unicode; the
  functions that call it take it as the parameter \<open>toLowerCase\<close>. On strings of ASCII
  characters it is \<open>ascii_toLowerCase\<close>, which stands for it at the concrete ASCII inputs
  evaluated below.
\<close>

definition lower_char :: "char \<Rightarrow> char" where
  "lower_char c =
     (case map_of (zip ''ABCDEFGHIJKLMNOPQRSTUVWXYZ'' ''abcdefghijklmnopqrstuvwxyz'') c of
        None \<Rightarrow> c | Some l \<Rightarrow> l)"

definition ascii_toLowerCase :: "string \<Rightarrow> string" where
  "ascii_toLowerCase s = map lower_char s"

section \<open>Spans and handler runs\<close>

datatype SpanKind = INTERNAL | SERVER | CLIENT | PRODUCER | CONSUMER

datatype SpanStatusCode = UNSET | OK | ERROR

text \<open>
  A span as the record of the calls made on it: what \<open>startSpan\<close> was given (the parent
  is the carrier handed to \<open>propagation.extract\<close>, or \<open>None\<close> for the ambient context),
  the arguments of the last \<open>setStatus\<close>, the exceptions passed to \<open>recordException\<close> in
  order, and how often \<open>end\<close> was called. What the tracing SDK exports for a span that
  received these calls is outside the library.
\<close>

record span =
  sp_name :: string
  sp_kind :: SpanKind
  sp_attributes :: "(string \<times> jsval) list"
  sp_parent :: "(string \<times> jsval) list option"
  sp_status_code :: SpanStatusCode
  sp_status_message :: "jsval option"
  sp_exceptions :: "thrown list"
  sp_end_calls :: nat

definition startSpan ::
  "string \<Rightarrow> SpanKind \<Rightarrow> (string \<times> jsval) list \<Rightarrow> (string \<times> jsval) list option \<Rightarrow> span" where
  "startSpan name kind attrs parent =
     \<lparr>sp_name = name, sp_kind = kind, sp_attributes = attrs, sp_parent = parent,
      sp_status_code = UNSET, sp_status_message = None, sp_exceptions = [], sp_end_calls = 0\<rparr>"

definition setStatus :: "SpanStatusCode \<Rightarrow> jsval option \<Rightarrow> span \<Rightarrow> span" where
  "setStatus c m s = s\<lparr>sp_status_code := c, sp_status_message := m\<rparr>"

definition recordException :: "thrown \<Rightarrow> span \<Rightarrow> span" where
  "recordException e s = s\<lparr>sp_exceptions := sp_exceptions s @ [e]\<rparr>"

definition end_span :: "span \<Rightarrow> span" where
  "end_span s = s\<lparr>sp_end_calls := Suc (sp_end_calls s)\<rparr>"

text \<open>The calls a handler can make on a span it holds.\<close>

datatype span_call =
    EndCall
  | SetStatusCall SpanStatusCode "jsval option"
  | RecordExceptionCall thrown
  | SetAttributeCall string jsval

fun apply_call :: "span_call \<Rightarrow> span \<Rightarrow> span" where
  "apply_call EndCall s = end_span s"
| "apply_call (SetStatusCall c m) s = setStatus c m s"
| "apply_call (RecordExceptionCall e) s = recordException e s"
| "apply_call (SetAttributeCall k v) s = s\<lparr>sp_attributes := obj_set (sp_attributes s) k v\<rparr>"

definition apply_calls :: "span_call list \<Rightarrow> span \<Rightarrow> span" where
  "apply_calls calls s = fold apply_call calls s"

datatype metric =
    WsEvent string bool int
  | RabbitMessage string "string option" "string option" string bool int

text \<open>
  One settled call of an asynchronous function: how it settled (\<open>Inl\<close> the thrown value or
  rejection reason, \<open>Inr\<close> the result), the spans and metrics it produced in order, the
  time it took, and the calls it made, in order, on the live span it could reach: the
  one passed to it, which is also the active one of the context it ran in.
\<close>

record run =
  run_outcome :: "thrown + jsval"
  run_spans :: "span list"
  run_metrics :: "metric list"
  run_elapsed :: int
  run_span_calls :: "span_call list"

text \<open>
  The \<open>catch\<close> and \<open>finally\<close> blocks shared by the three wrappers, acting on the span as
  the handler left it: on success the status is set to OK; on a throw the exception and
  the error status are recorded only for an instance of \<open>Error\<close>; \<open>end\<close> is called in
  both cases.
\<close>

definition settle_span :: "thrown + jsval \<Rightarrow> span \<Rightarrow> span" where
  "settle_span outcome s =
     end_span
       (case outcome of
          Inr v \<Rightarrow> setStatus OK None s
        | Inl (ErrorInstance props) \<Rightarrow>
            setStatus ERROR (Some (get_prop props ''message''))
              (recordException (ErrorInstance props) s)
        | Inl (NonError v) \<Rightarrow> s)"

definition is_success :: "thrown + jsval \<Rightarrow> bool" where
  "is_success outcome = (case outcome of Inr v \<Rightarrow> True | Inl e \<Rightarrow> False)"

section \<open>Socket.IO interceptor (interceptors/socketio-interceptor.ts)\<close>

datatype header_value = HString string | HArray "string list" | HUndefined

record handshake =
  hs_headers :: "(string \<times> header_value) list option"
  hs_query :: "(string \<times> header_value) list option"
  hs_address :: jsval

record socket_info =
  sock_id :: jsval
  sock_handshake :: "handshake option"

definition header_step ::
  "(string \<Rightarrow> string) \<Rightarrow> string \<times> header_value \<Rightarrow> (string \<times> jsval) list \<Rightarrow> (string \<times> jsval) list" where
  "header_step toLowerCase kv carrier =
     (case snd kv of
        HString s \<Rightarrow> obj_set carrier (toLowerCase (fst kv)) (JStr s)
      | HArray xs \<Rightarrow> (case xs of [] \<Rightarrow> carrier
                               | x # rest \<Rightarrow> obj_set carrier (toLowerCase (fst kv)) (JStr x))
      | HUndefined \<Rightarrow> carrier)"

definition headersToCarrier ::
  "(string \<Rightarrow> string) \<Rightarrow> (string \<times> header_value) list \<Rightarrow> (string \<times> jsval) list" where
  "headersToCarrier toLowerCase headers = fold (header_step toLowerCase) headers []"

text \<open>A query parameter \<open>q\<close>: its truthiness and \<open>String(q)\<close>.\<close>

fun query_truthy :: "header_value \<Rightarrow> bool" where
  "query_truthy (HString s) = (s \<noteq> [])"
| "query_truthy (HArray xs) = True"
| "query_truthy HUndefined = False"

fun join_comma :: "string list \<Rightarrow> string" where
  "join_comma [] = []"
| "join_comma [x] = x"
| "join_comma (x # y # ys) = x @ '','' @ join_comma (y # ys)"

fun query_String :: "header_value \<Rightarrow> string" where
  "query_String (HString s) = s"
| "query_String (HArray xs) = join_comma xs"
| "query_String HUndefined = ''undefined''"

definition query_param :: "socket_info \<Rightarrow> string \<Rightarrow> header_value" where
  "query_param socket k =
     (case sock_handshake socket of
        None \<Rightarrow> HUndefined
      | Some h \<Rightarrow> (case hs_query h of
                    None \<Rightarrow> HUndefined
                  | Some q \<Rightarrow> (case map_of q k of None \<Rightarrow> HUndefined | Some v \<Rightarrow> v)))"

definition socket_headers :: "socket_info \<Rightarrow> (string \<times> header_value) list option" where
  "socket_headers socket =
     (case sock_handshake socket of None \<Rightarrow> None | Some h \<Rightarrow> hs_headers h)"

text \<open>
  \<open>firstArg && typeof firstArg === 'object' && '_trace' in firstArg\<close>, giving
  \<open>firstArg._trace\<close> when it holds.
\<close>

fun payload_trace :: "jsval list \<Rightarrow> jsval option" where
  "payload_trace (JObj fs # rest) = map_of fs ''_trace''"
| "payload_trace args = None"

text \<open>
  \<open>extractTraceContext(socket, args)\<close> up to its last line: the carrier it hands to
  \<open>propagation.extract(context.active(), carrier)\<close>.
\<close>

definition extractTraceContext ::
  "(string \<Rightarrow> string) \<Rightarrow> socket_info \<Rightarrow> jsval list \<Rightarrow> (string \<times> jsval) list" where
  "extractTraceContext toLowerCase socket args =
     (let carrier1 = (case socket_headers socket of
                        None \<Rightarrow> []
                      | Some headers \<Rightarrow> headersToCarrier toLowerCase headers);
          carrier2 = (case payload_trace args of
                        None \<Rightarrow> carrier1
                      | Some t \<Rightarrow> obj_spread carrier1 (own_entries t));
          carrier3 = (if query_truthy (query_param socket ''traceparent'')
                      then obj_set carrier2 ''traceparent''
                             (JStr (query_String (query_param socket ''traceparent'')))
                      else carrier2);
          carrier4 = (if query_truthy (query_param socket ''tracestate'')
                      then obj_set carrier3 ''tracestate''
                             (JStr (query_String (query_param socket ''tracestate'')))
                      else carrier3)
      in carrier4)"

text \<open>
  The claimed selection, in the spec's words: the first of the three sources that is
  present supplies the whole carrier, in the order payload field, handshake headers,
  query parameters.
\<close>

definition query_carrier :: "socket_info \<Rightarrow> (string \<times> jsval) list" where
  "query_carrier socket =
     (if query_truthy (query_param socket ''traceparent'')
      then [(''traceparent'', JStr (query_String (query_param socket ''traceparent'')))] else []) @
     (if query_truthy (query_param socket ''tracestate'')
      then [(''tracestate'', JStr (query_String (query_param socket ''tracestate'')))] else [])"

definition first_match_carrier ::
  "(string \<Rightarrow> string) \<Rightarrow> socket_info \<Rightarrow> jsval list \<Rightarrow> (string \<times> jsval) list" where
  "first_match_carrier toLowerCase socket args =
     (case payload_trace args of
        Some t \<Rightarrow> own_entries t
      | None \<Rightarrow> (case socket_headers socket of
                   Some headers \<Rightarrow> headersToCarrier toLowerCase headers
                 | None \<Rightarrow> query_carrier socket))"

text \<open>
  Event handlers. A handler is called with the module's current \<open>serviceName\<close> in scope
  and the event's arguments, and settles as a \<open>run\<close>.
\<close>

type_synonym handler = "string \<Rightarrow> jsval list \<Rightarrow> run"

definition ws_attributes :: "string \<Rightarrow> socket_info \<Rightarrow> string \<Rightarrow> (string \<times> jsval) list" where
  "ws_attributes event socket serviceName =
     [(''messaging.system'', JStr ''socket.io''),
      (''messaging.operation.type'', JStr ''receive''),
      (''ws.event.name'', JStr event),
      (''ws.client.id'', sock_id socket),
      (''service.name'', JStr serviceName),
      (''network.transport'', JStr ''websocket''),
      (''client.address'',
         (case sock_handshake socket of None \<Rightarrow> JUndefined | Some h \<Rightarrow> hs_address h))]"

text \<open>
  The \<open>wrappedHandler\<close> closure that \<open>wrapSocket\<close> builds for \<open>event\<close> and \<open>handler\<close>. The
  handler runs inside \<open>context.with(activeContext, ...)\<close>, so the span the wrapper started
  is the active span while it runs: the calls the handler makes on it have taken effect
  when the wrapper sets the status and ends it. The wrapper itself makes no call on the
  span that was active around it.
\<close>

definition wrappedHandler ::
  "(string \<Rightarrow> string) \<Rightarrow> socket_info \<Rightarrow> string \<Rightarrow> handler \<Rightarrow> handler" where
  "wrappedHandler toLowerCase socket event handler serviceName args =
     (let parentContext = extractTraceContext toLowerCase socket args;
          span = startSpan (''ws.'' @ event) SERVER (ws_attributes event socket serviceName)
                   (Some parentContext);
          r = handler serviceName args;
          live = apply_calls (run_span_calls r) span
      in \<lparr>run_outcome = (case run_outcome r of Inl e \<Rightarrow> Inl e | Inr v \<Rightarrow> Inr JUndefined),
          run_spans = settle_span (run_outcome r) live # run_spans r,
          run_metrics = run_metrics r @
            [WsEvent event (is_success (run_outcome r)) (run_elapsed r)],
          run_elapsed = run_elapsed r,
          run_span_calls = []\<rparr>)"

text \<open>
  A socket: what the wrappers read from it, its current \<open>on\<close> method, and the listeners
  registered with the library's own \<open>on\<close> (event name and handler, in order).
\<close>

type_synonym registry = "(string \<times> handler) list"

record socket =
  sk_info :: socket_info
  sk_on :: "string \<Rightarrow> handler \<Rightarrow> registry \<Rightarrow> registry"
  sk_listeners :: registry

definition native_on :: "string \<Rightarrow> handler \<Rightarrow> registry \<Rightarrow> registry" where
  "native_on event h reg = reg @ [(event, h)]"

definition new_socket :: "socket_info \<Rightarrow> socket" where
  "new_socket info = \<lparr>sk_info = info, sk_on = native_on, sk_listeners = []\<rparr>"

definition reserved_event :: "string \<Rightarrow> bool" where
  "reserved_event event = (prefix ''$'' event \<or> event = ''disconnect'' \<or> event = ''error'')"

definition wrapSocket :: "(string \<Rightarrow> string) \<Rightarrow> socket \<Rightarrow> socket" where
  "wrapSocket toLowerCase sk =
     (let originalOn = sk_on sk
      in sk\<lparr>sk_on := (\<lambda>event handler.
                if reserved_event event then originalOn event handler
                else originalOn event (wrappedHandler toLowerCase (sk_info sk) event handler))\<rparr>)"

text \<open>\<open>socket.on(event, handler)\<close> as the application calls it.\<close>

definition socket_on :: "string \<Rightarrow> handler \<Rightarrow> socket \<Rightarrow> socket" where
  "socket_on event h sk = sk\<lparr>sk_listeners := sk_on sk event h (sk_listeners sk)\<rparr>"

text \<open>
  The server: its \<open>connection\<close> listeners in registration order, and the module variable
  \<open>serviceName\<close>. \<open>initSocketIOInterceptor\<close> sets the name and registers one more
  connection listener that wraps the socket.
\<close>

record io_server =
  io_connection_listeners :: "(socket \<Rightarrow> socket) list"
  io_serviceName :: string

definition new_io :: io_server where
  "new_io = \<lparr>io_connection_listeners = [], io_serviceName = ''unknown-service''\<rparr>"

definition resolve_serviceName :: "string option \<Rightarrow> string option \<Rightarrow> string" where
  "resolve_serviceName opt env =
     (case opt of
        Some n \<Rightarrow> if n \<noteq> [] then n
                  else (case env of Some e \<Rightarrow> if e \<noteq> [] then e else ''unknown-service''
                                  | None \<Rightarrow> ''unknown-service'')
      | None \<Rightarrow> (case env of Some e \<Rightarrow> if e \<noteq> [] then e else ''unknown-service''
                             | None \<Rightarrow> ''unknown-service''))"

definition initSocketIOInterceptor ::
  "(string \<Rightarrow> string) \<Rightarrow> string option \<Rightarrow> string option \<Rightarrow> io_server \<Rightarrow> io_server" where
  "initSocketIOInterceptor toLowerCase optName envName io =
     io\<lparr>io_serviceName := resolve_serviceName optName envName,
        io_connection_listeners := io_connection_listeners io @ [wrapSocket toLowerCase]\<rparr>"

definition io_on_connection :: "(socket \<Rightarrow> socket) \<Rightarrow> io_server \<Rightarrow> io_server" where
  "io_on_connection l io = io\<lparr>io_connection_listeners := io_connection_listeners io @ [l]\<rparr>"

text \<open>A client connects: every connection listener runs on the new socket, in order.\<close>

definition connect :: "io_server \<Rightarrow> socket_info \<Rightarrow> socket" where
  "connect io info = fold (\<lambda>l sk. l sk) (io_connection_listeners io) (new_socket info)"

text \<open>
  The client emits \<open>event\<close> once: every listener registered for it is called. The runs
  are returned in listener order.
\<close>

definition fire :: "io_server \<Rightarrow> socket \<Rightarrow> string \<Rightarrow> jsval list \<Rightarrow> run list" where
  "fire io sk event args =
     map (\<lambda>eh. snd eh (io_serviceName io) args)
         (filter (\<lambda>eh. fst eh = event) (sk_listeners sk))"

section \<open>RabbitMQ interceptor (interceptors/rabbitmq-interceptor.ts)\<close>

text \<open>
  A \<open>send\<close> method is either a function of the patched class itself, called with the
  queue, the message and the options object, or the replacement installed by
  \<open>patchRabbitMQ\<close>, which reads the module variables \<open>originalSend\<close> and \<open>serviceName\<close>
  when it is called.
\<close>

datatype send_impl = Native "string \<Rightarrow> jsval \<Rightarrow> jsval \<Rightarrow> run" | Patched

datatype rabbit_class = NoPrototype | Prototype "send_impl option"

record rabbit_state =
  rb_isPatched :: bool
  rb_originalSend :: "send_impl option"
  rb_serviceName :: string
  rb_class :: rabbit_class
  rb_log :: "(string \<times> string) list"

definition patchRabbitMQ :: "send_impl option \<Rightarrow> rabbit_state \<Rightarrow> rabbit_state" where
  "patchRabbitMQ proto_send st =
     (let st1 = (case proto_send of
                   Some f \<Rightarrow> (if rb_originalSend st = None
                              then st\<lparr>rb_originalSend := Some f, rb_class := Prototype (Some Patched)\<rparr>
                              else st)
                 | None \<Rightarrow> st)
      in st1\<lparr>rb_isPatched := True,
             rb_log := rb_log st1 @ [(''info'', ''RabbitMQ interceptor applied successfully'')]\<rparr>)"

definition initRabbitMQInterceptor :: "string option \<Rightarrow> string option \<Rightarrow> rabbit_state \<Rightarrow> rabbit_state" where
  "initRabbitMQInterceptor optName envName st =
     (if rb_isPatched st then st
      else (let st1 = st\<lparr>rb_serviceName := resolve_serviceName optName envName\<rparr>
            in case rb_class st1 of
                 NoPrototype \<Rightarrow>
                   st1\<lparr>rb_log := rb_log st1 @ [(''warn'', ''Failed to patch RabbitMQ class'')]\<rparr>
               | Prototype proto_send \<Rightarrow> patchRabbitMQ proto_send st1))"

definition restoreRabbitMQ :: "rabbit_state \<Rightarrow> rabbit_state" where
  "restoreRabbitMQ st =
     (if \<not> rb_isPatched st then st
      else (case rb_originalSend st of
              Some f \<Rightarrow> (case rb_class st of
                           NoPrototype \<Rightarrow> st
                         | Prototype p \<Rightarrow>
                             st\<lparr>rb_class := Prototype (Some f), rb_originalSend := None,
                                rb_isPatched := False\<rparr>)
            | None \<Rightarrow> st\<lparr>rb_isPatched := False\<rparr>))"

definition publish_attributes :: "string \<Rightarrow> string \<Rightarrow> (string \<times> jsval) list" where
  "publish_attributes queue serviceName =
     [(''messaging.system'', JStr ''rabbitmq''),
      (''messaging.operation'', JStr ''publish''),
      (''messaging.destination'', JStr queue),
      (''messaging.rabbitmq.queue'', JStr queue),
      (''service.name'', JStr serviceName)]"

text \<open>\<open>{ ...(options?.headers || {}) }\<close> and \<open>{ ...options, headers }\<close>.\<close>

definition options_headers :: "jsval \<Rightarrow> (string \<times> jsval) list" where
  "options_headers options =
     (case options of
        JObj fs \<Rightarrow> (if truthy (get_prop fs ''headers'') then own_entries (get_prop fs ''headers'')
                    else [])
      | _ \<Rightarrow> [])"

definition with_headers :: "jsval \<Rightarrow> (string \<times> jsval) list \<Rightarrow> jsval" where
  "with_headers options headers =
     JObj (obj_define (own_entries options) ''headers'' (JObj headers))"

definition null_call_error :: thrown where
  "null_call_error =
     ErrorInstance [(''name'', JStr ''TypeError''),
                    (''message'', JStr ''Cannot read properties of null (reading call)'')]"

text \<open>
  Calling a \<open>send\<close> method. \<open>inject\<close> is \<open>propagation.inject(activeContext, headers)\<close> of
  the tracing library, acting on the header object. The replacement calls
  \<open>originalSend\<close>, which may itself be a replacement, so the call depth is bounded by
  fuel; \<open>None\<close> is a call that did not return within it. \<open>originalSend\<close> is called in the
  caller's context and is not given the span, so the calls it makes on the active span
  reach the caller's span, not the one started here.
\<close>

fun call_send ::
  "nat \<Rightarrow> rabbit_state \<Rightarrow> ((string \<times> jsval) list \<Rightarrow> (string \<times> jsval) list) \<Rightarrow>
   send_impl \<Rightarrow> string \<Rightarrow> jsval \<Rightarrow> jsval \<Rightarrow> run option" where
  "call_send fuel st inject (Native f) queue msg options = Some (f queue msg options)"
| "call_send 0 st inject Patched queue msg options = None"
| "call_send (Suc fuel) st inject Patched queue msg options =
     (let headers = inject (options_headers options);
          span = startSpan (queue @ '' send'') PRODUCER
                   (publish_attributes queue (rb_serviceName st)) None;
          inner = (case rb_originalSend st of
                     None \<Rightarrow> Some \<lparr>run_outcome = Inl null_call_error, run_spans = [],
                                    run_metrics = [], run_elapsed = 0, run_span_calls = []\<rparr>
                   | Some orig \<Rightarrow>
                       call_send fuel st inject orig queue msg (with_headers options headers))
      in case inner of
           None \<Rightarrow> None
         | Some r \<Rightarrow>
             Some \<lparr>run_outcome = run_outcome r,
                   run_spans = settle_span (run_outcome r) span # run_spans r,
                   run_metrics = run_metrics r @
                     [RabbitMessage queue None None ''publish''
                        (is_success (run_outcome r)) (run_elapsed r)],
                   run_elapsed = run_elapsed r,
                   run_span_calls = run_span_calls r\<rparr>)"

definition not_a_function_error :: thrown where
  "not_a_function_error =
     ErrorInstance [(''name'', JStr ''TypeError''),
                    (''message'', JStr ''rabbit.send is not a function'')]"

text \<open>\<open>rabbit.send(queue, msg, options)\<close> on an instance of the class.\<close>

definition rabbit_send ::
  "nat \<Rightarrow> rabbit_state \<Rightarrow> ((string \<times> jsval) list \<Rightarrow> (string \<times> jsval) list) \<Rightarrow>
   string \<Rightarrow> jsval \<Rightarrow> jsval \<Rightarrow> run option" where
  "rabbit_send fuel st inject queue msg options =
     (case rb_class st of
        Prototype (Some impl) \<Rightarrow> call_send fuel st inject impl queue msg options
      | _ \<Rightarrow> Some \<lparr>run_outcome = Inl not_a_function_error, run_spans = [],
                    run_metrics = [], run_elapsed = 0, run_span_calls = []\<rparr>)"

record ConsumeMessage =
  cm_exchange :: string
  cm_routingKey :: string
  cm_deliveryTag :: nat
  cm_headers :: "(string \<times> jsval) list option"
  cm_content :: string

definition consume_attributes :: "string \<Rightarrow> string \<Rightarrow> string \<Rightarrow> string \<Rightarrow> (string \<times> jsval) list" where
  "consume_attributes queue exchange routingKey serviceName =
     [(''messaging.system'', JStr ''rabbitmq''),
      (''messaging.operation'', JStr ''process''),
      (''messaging.destination'', JStr exchange),
      (''messaging.rabbitmq.exchange'', JStr exchange),
      (''messaging.rabbitmq.routing_key'', JStr routingKey),
      (''messaging.rabbitmq.queue'', JStr queue),
      (''service.name'', JStr serviceName)]"

text \<open>The span that \<open>wrapConsumer\<close> starts, as it is when the handler is called.\<close>

definition consumer_span :: "string \<Rightarrow> ConsumeMessage \<Rightarrow> string \<Rightarrow> span" where
  "consumer_span serviceName msg queue =
     (let headers = (case cm_headers msg of None \<Rightarrow> [] | Some h \<Rightarrow> h);
          exchange = (if cm_exchange msg \<noteq> [] then cm_exchange msg else ''default'');
          routingKey = (if cm_routingKey msg \<noteq> [] then cm_routingKey msg else queue)
      in startSpan (queue @ '' process'') CONSUMER
           (consume_attributes queue exchange routingKey serviceName) (Some headers))"

text \<open>
  \<open>wrapConsumer(msg, queue, handler)\<close>. The handler is given the span and runs with it
  active; the calls it makes on it have taken effect when the wrapper sets the status
  and ends it.
\<close>

definition wrapConsumer :: "string \<Rightarrow> ConsumeMessage \<Rightarrow> string \<Rightarrow> (span \<Rightarrow> run) \<Rightarrow> run" where
  "wrapConsumer serviceName msg queue handler =
     (let exchange = (if cm_exchange msg \<noteq> [] then cm_exchange msg else ''default'');
          routingKey = (if cm_routingKey msg \<noteq> [] then cm_routingKey msg else queue);
          span = consumer_span serviceName msg queue;
          r = handler span;
          live = apply_calls (run_span_calls r) span
      in \<lparr>run_outcome = run_outcome r,
          run_spans = settle_span (run_outcome r) live # run_spans r,
          run_metrics = run_metrics r @
            [RabbitMessage queue (Some exchange) (Some routingKey) ''consume''
               (is_success (run_outcome r)) (run_elapsed r)],
          run_elapsed = run_elapsed r,
          run_span_calls = []\<rparr>)"

section \<open>What a guarded operation leaves behind when its handler throws\<close>





definition recorded :: "span_call list \<Rightarrow> thrown list" where
  "recorded calls =
     concat (map (\<lambda>c. case c of RecordExceptionCall e \<Rightarrow> [e] | _ \<Rightarrow> []) calls)"






text \<open>A handler that ends the span itself before it throws \<open>e\<close>.\<close>

definition throwing_after_end :: "thrown \<Rightarrow> run" where
  "throwing_after_end e =
     \<lparr>run_outcome = Inl e, run_spans = [], run_metrics = [], run_elapsed = 3,
      run_span_calls = [EndCall]\<rparr>"

definition returning :: "jsval \<Rightarrow> run" where
  "returning v = \<lparr>run_outcome = Inr v, run_spans = [], run_metrics = [], run_elapsed = 3,
                  run_span_calls = []\<rparr>"

definition msg_orders :: ConsumeMessage where
  "msg_orders = \<lparr>cm_exchange = ''shop'', cm_routingKey = ''orders.created'', cm_deliveryTag = 1,
                 cm_headers = None, cm_content = ''{}''\<rparr>"

definition err_boom :: thrown where
  "err_boom = ErrorInstance [(''name'', JStr ''Error''), (''message'', JStr ''boom'')]"

definition socket_a :: socket_info where
  "socket_a = \<lparr>sock_id = JStr ''abc'', sock_handshake = None\<rparr>"

definition rabbit_fresh :: "(string \<Rightarrow> jsval \<Rightarrow> jsval \<Rightarrow> run) \<Rightarrow> rabbit_state" where
  "rabbit_fresh f =
     \<lparr>rb_isPatched = False, rb_originalSend = None, rb_serviceName = ''unknown-service'',
      rb_class = Prototype (Some (Native f)), rb_log = []\<rparr>"

definition traceparent_a :: string where
  "traceparent_a = ''00-0af7651916cd43dd8448eb211c80319c-b7ad6b7169203331-01''"

definition traceparent_b :: string where
  "traceparent_b = ''00-4bf92f3577b34da6a3ce929d0e0e4736-00f067aa0ba902b7-01''"

definition socket_with_headers :: socket_info where
  "socket_with_headers =
     \<lparr>sock_id = JStr ''abc'',
      sock_handshake = Some \<lparr>hs_headers = Some [(''Traceparent'', HString traceparent_a)],
                             hs_query = Some [(''traceparent'', HString traceparent_b)],
                             hs_address = JStr ''10.0.0.7''\<rparr>\<rparr>"

definition args_with_trace :: "jsval list" where
  "args_with_trace =
     [JObj [(''text'', JStr ''hi''), (''_trace'', JObj [(''tracestate'', JStr ''vendor=1'')])]]"

section \<open>Sensitive-field redaction (logger/structured-logger.ts, logger/winston-otel-transport.ts)\<close>

text \<open>
  \<open>sensitiveFields.some(field => lowerKey.includes(field.toLowerCase()))\<close>. The list of
  sensitive fields comes from the options (its default, \<open>DEFAULT_SENSITIVE_FIELDS\<close>, is a
  constant of the library) and is a parameter here.
\<close>

definition isSensitive :: "(string \<Rightarrow> string) \<Rightarrow> string list \<Rightarrow> string \<Rightarrow> bool" where
  "isSensitive toLowerCase sensitiveFields key =
     list_ex (\<lambda>field. sublist (toLowerCase field) (toLowerCase key)) sensitiveFields"

definition REDACTED :: jsval where
  "REDACTED = JStr ''[REDACTED]''"

text \<open>
  \<open>maskSensitiveData(data)\<close>, the same function in both classes. \<open>mask_fields\<close> is the
  loop over the entries of an object, \<open>mask_items\<close> the same loop when \<open>data\<close> is an
  array (the function is called on every array element of type \<open>object\<close>, arrays
  included; the entries of an array are its indexed elements and the result is an
  object); \<open>mask_value\<close> is the choice made for the value of a key that is not
  sensitive, \<open>mask_elems\<close> is \<open>value.map(item => ...)\<close> and \<open>mask_elem\<close> its callback.

  \<open>Object.entries\<close> lists every own property once, and the loop stores each with the
  assignment \<open>masked[key] = ...\<close>, which adds a property to \<open>masked\<close> for every name but
  \<open>__proto__\<close>: for that name the assignment calls the prototype setter and \<open>masked\<close>
  gets no property.
\<close>

fun mask_fields ::
    "(string \<Rightarrow> string) \<Rightarrow> string list \<Rightarrow> (string \<times> jsval) list \<Rightarrow> (string \<times> jsval) list"
  and mask_items ::
    "(string \<Rightarrow> string) \<Rightarrow> string list \<Rightarrow> nat \<Rightarrow> jsval list \<Rightarrow> (string \<times> jsval) list"
  and mask_value :: "(string \<Rightarrow> string) \<Rightarrow> string list \<Rightarrow> jsval \<Rightarrow> jsval"
  and mask_elems :: "(string \<Rightarrow> string) \<Rightarrow> string list \<Rightarrow> jsval list \<Rightarrow> jsval list"
  and mask_elem :: "(string \<Rightarrow> string) \<Rightarrow> string list \<Rightarrow> jsval \<Rightarrow> jsval" where
  "mask_fields lc sf [] = []"
| "mask_fields lc sf (kv # rest) =
     (if fst kv = ''__proto__'' then mask_fields lc sf rest
      else (fst kv, if isSensitive lc sf (fst kv) then REDACTED else mask_value lc sf (snd kv))
             # mask_fields lc sf rest)"
| "mask_items lc sf i [] = []"
| "mask_items lc sf i (x # xs) =
     (dec_str i, if isSensitive lc sf (dec_str i) then REDACTED else mask_value lc sf x)
       # mask_items lc sf (Suc i) xs"
| "mask_value lc sf (JObj fs) = JObj (mask_fields lc sf fs)"
| "mask_value lc sf (JArr xs) = JArr (mask_elems lc sf xs)"
| "mask_value lc sf JUndefined = JUndefined"
| "mask_value lc sf JNull = JNull"
| "mask_value lc sf (JBool b) = JBool b"
| "mask_value lc sf (JNum n) = JNum n"
| "mask_value lc sf (JStr s) = JStr s"
| "mask_elems lc sf [] = []"
| "mask_elems lc sf (x # xs) = mask_elem lc sf x # mask_elems lc sf xs"
| "mask_elem lc sf (JObj fs) = JObj (mask_fields lc sf fs)"
| "mask_elem lc sf (JArr xs) = JObj (mask_items lc sf 0 xs)"
| "mask_elem lc sf JUndefined = JUndefined"
| "mask_elem lc sf JNull = JNull"
| "mask_elem lc sf (JBool b) = JBool b"
| "mask_elem lc sf (JNum n) = JNum n"
| "mask_elem lc sf (JStr s) = JStr s"

definition maskSensitiveData ::
  "(string \<Rightarrow> string) \<Rightarrow> string list \<Rightarrow> (string \<times> jsval) list \<Rightarrow> (string \<times> jsval) list" where
  "maskSensitiveData toLowerCase sf data = mask_fields toLowerCase sf data"

text \<open>
  Reading a value back: \<open>v[k]\<close> for an own property \<open>k\<close> of an object or an index of an
  array, and \<open>v[k1][k2]...\<close> along a path of property names.
\<close>

fun get_member :: "jsval \<Rightarrow> string \<Rightarrow> jsval option" where
  "get_member (JObj fs) k = map_of fs k"
| "get_member (JArr xs) k = map_of (index_entries xs) k"
| "get_member v k = None"

fun get_path :: "jsval \<Rightarrow> string list \<Rightarrow> jsval option" where
  "get_path v [] = Some v"
| "get_path v (k # ks) = (case get_member v k of None \<Rightarrow> None | Some w \<Rightarrow> get_path w ks)"

fun is_scalar :: "jsval \<Rightarrow> bool" where
  "is_scalar (JObj fs) = False"
| "is_scalar (JArr xs) = False"
| "is_scalar v = True"

text \<open>
  \<open>fully_redacted toLowerCase sf v\<close>: wherever \<open>v\<close> holds an object, at any depth, every
  property of it with a sensitive name has the marker as its value.
\<close>

fun fully_redacted :: "(string \<Rightarrow> string) \<Rightarrow> string list \<Rightarrow> jsval \<Rightarrow> bool"
  and fields_redacted :: "(string \<Rightarrow> string) \<Rightarrow> string list \<Rightarrow> (string \<times> jsval) list \<Rightarrow> bool"
  and elems_redacted :: "(string \<Rightarrow> string) \<Rightarrow> string list \<Rightarrow> jsval list \<Rightarrow> bool" where
  "fully_redacted lc sf (JObj fs) = fields_redacted lc sf fs"
| "fully_redacted lc sf (JArr xs) = elems_redacted lc sf xs"
| "fully_redacted lc sf JUndefined = True"
| "fully_redacted lc sf JNull = True"
| "fully_redacted lc sf (JBool b) = True"
| "fully_redacted lc sf (JNum n) = True"
| "fully_redacted lc sf (JStr s) = True"
| "fields_redacted lc sf [] = True"
| "fields_redacted lc sf (kv # rest) =
     ((if isSensitive lc sf (fst kv) then snd kv = REDACTED else fully_redacted lc sf (snd kv))
      \<and> fields_redacted lc sf rest)"
| "elems_redacted lc sf [] = True"
| "elems_redacted lc sf (x # xs) = (fully_redacted lc sf x \<and> elems_redacted lc sf xs)"

definition meta_example :: "(string \<times> jsval) list" where
  "meta_example =
     [(''password'', JStr ''secret''), (''user'', JObj [(''token'', JStr ''abc'')])]"

text \<open>\<open>JSON.parse('{"__proto__": 5, "user": "ann"}')\<close>.\<close>

definition meta_proto :: "(string \<times> jsval) list" where
  "meta_proto = [(''__proto__'', JNum 5), (''user'', JStr ''ann'')]"

definition meta_nested :: "(string \<times> jsval) list" where
  "meta_nested =
     [(''requestId'', JNum 7),
      (''accounts'', JArr [JObj [(''name'', JStr ''ann''), (''apiToken'', JStr ''t-1'')],
                           JStr ''plain''])]"

section \<open>Structured logger (logger/structured-logger.ts)\<close>

datatype LogLevel = LDebug | LInfo | LWarn | LError

fun LOG_LEVEL_PRIORITY :: "LogLevel \<Rightarrow> nat" where
  "LOG_LEVEL_PRIORITY LDebug = 0"
| "LOG_LEVEL_PRIORITY LInfo = 1"
| "LOG_LEVEL_PRIORITY LWarn = 2"
| "LOG_LEVEL_PRIORITY LError = 3"

fun level_name :: "LogLevel \<Rightarrow> string" where
  "level_name LDebug = ''debug''"
| "level_name LInfo = ''info''"
| "level_name LWarn = ''warn''"
| "level_name LError = ''error''"

record logger =
  lg_context :: "string option"
  lg_serviceName :: string
  lg_environment :: string
  lg_logLevel :: LogLevel
  lg_sensitiveFields :: "string list"
  lg_enableOtlpLogs :: bool
  lg_enableConsoleLogs :: bool

text \<open>What \<open>getTraceContextInfo()\<close> returns for the active span, if any.\<close>

record trace_info =
  ti_traceId :: "string option"
  ti_spanId :: "string option"

datatype console_stream = ConsoleError | ConsoleWarn | ConsoleDebug | ConsoleLog

text \<open>
  Modelled from the spec: the remote log emitter of \<open>logger/otel-logger.ts\<close>
  (\<open>emitOtelLog\<close>, \<open>isOtelLoggerAvailable\<close>), which is not among the sources. By the spec
  (4.3 and the data model), \<open>emitLog(level, message, attributes)\<close> returns whether the
  remote export succeeded; a failure is caught, flips the process-wide availability flag
  to unavailable and is reported as \<open>false\<close>; a success flips the flag back to available.
  \<open>ot_backend_up\<close> is whether the backend accepts an export at this moment.
\<close>

record otel_logger =
  ot_available :: bool
  ot_backend_up :: bool
  ot_emitted :: "(string \<times> jsval \<times> (string \<times> jsval) list) list"

text \<open>Modelled from the spec: \<open>isOtelLoggerAvailable()\<close> reads the availability flag.\<close>

definition isOtelLoggerAvailable :: "otel_logger \<Rightarrow> bool" where
  "isOtelLoggerAvailable ot = ot_available ot"

text \<open>
  Modelled from the spec: \<open>emitOtelLog(level, message, attributes)\<close> reports whether the
  export succeeded and sets the availability flag accordingly; it never throws.
\<close>

definition emitOtelLog ::
  "string \<Rightarrow> jsval \<Rightarrow> (string \<times> jsval) list \<Rightarrow> otel_logger \<Rightarrow> bool \<times> otel_logger" where
  "emitOtelLog level message attributes ot =
     (if ot_backend_up ot
      then (True, ot\<lparr>ot_available := True,
                      ot_emitted := ot_emitted ot @ [(level, message, attributes)]\<rparr>)
      else (False, ot\<lparr>ot_available := False\<rparr>))"

text \<open>The process as the loggers see it: the emitter and the lines written to the console.\<close>

record log_world =
  lw_otel :: otel_logger
  lw_console :: "(console_stream \<times> (string \<times> jsval) list) list"

definition opt_field :: "string \<Rightarrow> string option \<Rightarrow> (string \<times> jsval) list \<Rightarrow> (string \<times> jsval) list" where
  "opt_field k v entry =
     (case v of None \<Rightarrow> entry | Some s \<Rightarrow> if s \<noteq> [] then obj_set entry k (JStr s) else entry)"

definition createLogEntry ::
  "(string \<Rightarrow> string) \<Rightarrow> logger \<Rightarrow> trace_info \<Rightarrow> string \<Rightarrow> LogLevel \<Rightarrow> string \<Rightarrow>
   (string \<times> jsval) list option \<Rightarrow> (string \<times> jsval) list" where
  "createLogEntry toLowerCase lg traceContext now level message meta =
     (let entry0 = [(''timestamp'', JStr now), (''level'', JStr (level_name level)),
                    (''message'', JStr message), (''service'', JStr (lg_serviceName lg)),
                    (''environment'', JStr (lg_environment lg))];
          entry1 = opt_field ''trace_id'' (ti_traceId traceContext) entry0;
          entry2 = opt_field ''span_id'' (ti_spanId traceContext) entry1;
          entry3 = opt_field ''context'' (lg_context lg) entry2
      in case meta of
           None \<Rightarrow> entry3
         | Some m \<Rightarrow>
             obj_assign entry3 (maskSensitiveData toLowerCase (lg_sensitiveFields lg) m))"

text \<open>
  \<open>writeToConsole\<close>: one line per call, on the stream chosen by the level (the text of
  the line, readable or JSON by environment, is a rendering of the entry).
\<close>

fun console_stream_of :: "LogLevel \<Rightarrow> console_stream" where
  "console_stream_of LError = ConsoleError"
| "console_stream_of LWarn = ConsoleWarn"
| "console_stream_of LDebug = ConsoleDebug"
| "console_stream_of LInfo = ConsoleLog"

definition writeToConsole :: "LogLevel \<Rightarrow> (string \<times> jsval) list \<Rightarrow> log_world \<Rightarrow> log_world" where
  "writeToConsole level entry w = w\<lparr>lw_console := lw_console w @ [(console_stream_of level, entry)]\<rparr>"

definition otlp_attributes :: "(string \<times> jsval) list \<Rightarrow> (string \<times> jsval) list" where
  "otlp_attributes entry =
     obj_define (obj_define (obj_define (obj_spread [] entry) ''timestamp'' JUndefined)
       ''level'' JUndefined) ''message'' JUndefined"

definition writeLog ::
  "(string \<Rightarrow> string) \<Rightarrow> logger \<Rightarrow> trace_info \<Rightarrow> string \<Rightarrow> LogLevel \<Rightarrow> string \<Rightarrow>
   (string \<times> jsval) list option \<Rightarrow> log_world \<Rightarrow> log_world" where
  "writeLog toLowerCase lg traceContext now level message meta w =
     (if LOG_LEVEL_PRIORITY level < LOG_LEVEL_PRIORITY (lg_logLevel lg) then w
      else
        (let entry = createLogEntry toLowerCase lg traceContext now level message meta;
             sent = (if lg_enableOtlpLogs lg \<and> isOtelLoggerAvailable (lw_otel w)
                     then emitOtelLog (level_name level) (JStr message) (otlp_attributes entry)
                            (lw_otel w)
                     else (False, lw_otel w));
             otlpSuccess = fst sent;
             w1 = w\<lparr>lw_otel := snd sent\<rparr>
         in if lg_enableConsoleLogs lg \<or> (\<not> otlpSuccess \<and> lg_enableOtlpLogs lg)
            then writeToConsole level entry w1
            else w1))"

section \<open>Winston transport (logger/winston-otel-transport.ts)\<close>

record winston_transport =
  wt_serviceName :: string
  wt_environment :: string
  wt_sensitiveFields :: "string list"
  wt_enableOtlp :: bool
  wt_enableConsole :: bool

text \<open>
  The \<open>info\<close> object of a log call: the values under the symbols \<open>LEVEL\<close> and \<open>MESSAGE\<close>,
  and its string-keyed properties in order (\<open>level\<close> and \<open>message\<close> among them).
\<close>

record winston_info =
  wi_LEVEL :: jsval
  wi_MESSAGE :: jsval
  wi_fields :: "(string \<times> jsval) list"

definition winston_level :: "winston_info \<Rightarrow> jsval" where
  "winston_level info =
     (if truthy (wi_LEVEL info) then wi_LEVEL info
      else if truthy (get_prop (wi_fields info) ''level'') then get_prop (wi_fields info) ''level''
      else JStr ''info'')"

definition winston_message :: "winston_info \<Rightarrow> jsval" where
  "winston_message info =
     (case wi_MESSAGE info of
        JStr m \<Rightarrow> JStr m
      | _ \<Rightarrow> if truthy (get_prop (wi_fields info) ''message'')
             then get_prop (wi_fields info) ''message'' else JStr '''')"

definition not_a_function :: "string \<Rightarrow> thrown" where
  "not_a_function what =
     ErrorInstance [(''name'', JStr ''TypeError''),
                    (''message'', JStr (what @ '' is not a function''))]"

text \<open>
  \<open>extractMessage(message, info)\<close>. \<open>message.includes\<close> is the substring test of a string
  and the membership test of an array; a truthy \<open>message\<close> of any other kind has no such
  method and the call throws.
\<close>

definition info_message :: "winston_info \<Rightarrow> jsval" where
  "info_message info =
     (case get_prop (wi_fields info) ''message'' of
        JStr im \<Rightarrow> JStr im | _ \<Rightarrow> JStr ''No message'')"

definition extractMessage :: "jsval \<Rightarrow> winston_info \<Rightarrow> thrown + jsval" where
  "extractMessage message info =
     (if \<not> truthy message then Inr (info_message info)
      else case message of
             JStr m \<Rightarrow>
               if \<not> sublist ''[object Object]'' m then Inr (JStr m) else Inr (info_message info)
           | JArr xs \<Rightarrow>
               if JStr ''[object Object]'' \<notin> set xs then Inr (JArr xs)
               else Inr (info_message info)
           | _ \<Rightarrow> Inl (not_a_function ''message.includes''))"

text \<open>\<open>extractMeta(info)\<close> copies the other string-keyed properties by assignment.\<close>

definition extractMeta :: "winston_info \<Rightarrow> (string \<times> jsval) list" where
  "extractMeta info =
     filter (\<lambda>kv. fst kv \<notin> set [''level'', ''message'', ''timestamp'', ''splat''] \<and>
                   fst kv \<noteq> ''__proto__'')
       (wi_fields info)"

text \<open>The entry that \<open>log\<close> builds; \<open>Inl\<close> when \<open>extractMessage\<close> throws.\<close>

definition winston_entry ::
  "(string \<Rightarrow> string) \<Rightarrow> winston_transport \<Rightarrow> trace_info \<Rightarrow> string \<Rightarrow> winston_info \<Rightarrow>
   thrown + (string \<times> jsval) list" where
  "winston_entry toLowerCase t traceContext now info =
     (case extractMessage (winston_message info) info of
        Inl e \<Rightarrow> Inl e
      | Inr message \<Rightarrow>
          (let entry0 = [(''timestamp'',
                            (if truthy (get_prop (wi_fields info) ''timestamp'')
                             then get_prop (wi_fields info) ''timestamp'' else JStr now)),
                         (''level'', winston_level info),
                         (''message'', message),
                         (''service'', JStr (wt_serviceName t)),
                         (''environment'', JStr (wt_environment t))];
               entry1 = opt_field ''trace_id'' (ti_traceId traceContext) entry0;
               entry2 = opt_field ''span_id'' (ti_spanId traceContext) entry1;
               meta = extractMeta info
           in Inr (if meta \<noteq> []
                   then obj_assign entry2
                          (maskSensitiveData toLowerCase (wt_sensitiveFields t) meta)
                   else entry2)))"

text \<open>
  \<open>mapToOtelLevel(level)\<close> switches on \<open>level.toLowerCase()\<close>, which throws when the level
  is not a string (the level is truthy, so it is not \<open>undefined\<close> or \<open>null\<close>).
\<close>

fun mapToOtelLevel :: "(string \<Rightarrow> string) \<Rightarrow> jsval \<Rightarrow> thrown + string" where
  "mapToOtelLevel toLowerCase (JStr l) =
     Inr (if toLowerCase l \<in> set [''error'', ''crit'', ''alert'', ''emerg''] then ''error''
          else if toLowerCase l \<in> set [''warn'', ''warning''] then ''warn''
          else if toLowerCase l \<in> set [''debug'', ''silly'', ''verbose''] then ''debug''
          else ''info'')"
| "mapToOtelLevel toLowerCase v = Inl (not_a_function ''level.toLowerCase'')"

definition consoleLog_stream :: "jsval \<Rightarrow> console_stream" where
  "consoleLog_stream level =
     (if level = JStr ''error'' then ConsoleError
      else if level = JStr ''warn'' \<or> level = JStr ''warning'' then ConsoleWarn
      else if level = JStr ''debug'' then ConsoleDebug
      else ConsoleLog)"

text \<open>
  \<open>sendToOtlp(level, entry)\<close> discards the result of \<open>emitOtelLog\<close>.
\<close>

definition sendToOtlp ::
  "(string \<Rightarrow> string) \<Rightarrow> jsval \<Rightarrow> (string \<times> jsval) list \<Rightarrow> log_world \<Rightarrow> thrown + log_world" where
  "sendToOtlp toLowerCase level entry w =
     (case mapToOtelLevel toLowerCase level of
        Inl e \<Rightarrow> Inl e
      | Inr otelLevel \<Rightarrow>
          Inr (w\<lparr>lw_otel := snd (emitOtelLog otelLevel (get_prop entry ''message'')
                                    (otlp_attributes entry) (lw_otel w))\<rparr>))"

text \<open>
  \<open>WinstonOtelTransport.log(info, callback)\<close>. The console is written only under
  \<open>enableConsole\<close>. \<open>Inr w\<close> is a call that returned, having called \<open>callback\<close> as its last
  step, and left the process as \<open>w\<close>; \<open>Inl e\<close> is a call that threw \<open>e\<close>: both throws
  happen before anything is written or exported, and \<open>callback\<close> is not called.
\<close>

definition winston_log ::
  "(string \<Rightarrow> string) \<Rightarrow> winston_transport \<Rightarrow> trace_info \<Rightarrow> string \<Rightarrow> winston_info \<Rightarrow>
   log_world \<Rightarrow> thrown + log_world" where
  "winston_log toLowerCase t traceContext now info w =
     (let level = winston_level info
      in case winston_entry toLowerCase t traceContext now info of
           Inl e \<Rightarrow> Inl e
         | Inr logEntry \<Rightarrow>
             (case (if wt_enableOtlp t \<and> isOtelLoggerAvailable (lw_otel w)
                    then sendToOtlp toLowerCase level logEntry w else Inr w) of
                Inl e \<Rightarrow> Inl e
              | Inr w1 \<Rightarrow>
                  Inr (if wt_enableConsole t
                       then w1\<lparr>lw_console := lw_console w1 @
                                  [(consoleLog_stream level, logEntry)]\<rparr>
                       else w1)))"

definition logger_otlp_only :: logger where
  "logger_otlp_only =
     \<lparr>lg_context = Some ''Orders'', lg_serviceName = ''shop'', lg_environment = ''production'',
      lg_logLevel = LInfo, lg_sensitiveFields = [''password'', ''token''],
      lg_enableOtlpLogs = True, lg_enableConsoleLogs = False\<rparr>"

definition winston_otlp_only :: winston_transport where
  "winston_otlp_only =
     \<lparr>wt_serviceName = ''shop'', wt_environment = ''production'',
      wt_sensitiveFields = [''password'', ''token''],
      wt_enableOtlp = True, wt_enableConsole = False\<rparr>"

definition no_trace :: trace_info where
  "no_trace = \<lparr>ti_traceId = None, ti_spanId = None\<rparr>"

definition world_backend_down :: log_world where
  "world_backend_down =
     \<lparr>lw_otel = \<lparr>ot_available = True, ot_backend_up = False, ot_emitted = []\<rparr>,
      lw_console = []\<rparr>"

definition world_unavailable :: log_world where
  "world_unavailable =
     \<lparr>lw_otel = \<lparr>ot_available = False, ot_backend_up = False, ot_emitted = []\<rparr>,
      lw_console = []\<rparr>"

definition info_order_failed :: winston_info where
  "info_order_failed =
     \<lparr>wi_LEVEL = JStr ''error'', wi_MESSAGE = JUndefined,
      wi_fields = [(''level'', JStr ''error''), (''message'', JStr ''order failed''),
                   (''orderId'', JNum 17)]\<rparr>"

definition info_login :: winston_info where
  "info_login =
     \<lparr>wi_LEVEL = JStr ''info'', wi_MESSAGE = JUndefined,
      wi_fields = [(''level'', JStr ''info''), (''message'', JStr ''login''),
                   (''password'', JStr ''secret''), (''user'', JStr ''ann'')]\<rparr>"

text \<open>A Winston call whose metadata came from \<open>JSON.parse\<close> and has a \<open>__proto__\<close> key.\<close>

definition info_proto :: winston_info where
  "info_proto =
     \<lparr>wi_LEVEL = JStr ''info'', wi_MESSAGE = JUndefined,
      wi_fields = [(''level'', JStr ''info''), (''message'', JStr ''login''),
                   (''__proto__'', JNum 5), (''user'', JStr ''ann'')]\<rparr>"

section \<open>Redaction on a store of objects\<close>

text \<open>
  To see what \<open>maskSensitiveData\<close> writes, objects and arrays live in a store: a cell per
  object, addressed by its position, and allocation appends a cell. A value is a
  primitive or a reference to a cell.
\<close>

datatype prim = PUndefined | PNull | PBool bool | PNum int | PStr string

datatype hval = Prim prim | Ref nat

datatype cell = ObjCell "(string \<times> hval) list" | ArrCell "hval list"

type_synonym heap = "cell list"

definition cell_at :: "heap \<Rightarrow> nat \<Rightarrow> cell option" where
  "cell_at h a = (if a < length h then Some (h ! a) else None)"

text \<open>
  \<open>masked[key] = v\<close> on the object at address \<open>m\<close>. For the name \<open>__proto__\<close>, on an
  object without an own property of that name, the object gets no property; the
  assignment makes \<open>v\<close> its prototype when \<open>v\<close> is an object or \<open>null\<close>, and \<open>v\<close> is then a
  value that \<open>maskSensitiveData\<close> has just built. A cell holds the own properties.
\<close>

definition set_prop :: "heap \<Rightarrow> nat \<Rightarrow> string \<Rightarrow> hval \<Rightarrow> heap" where
  "set_prop h m k v =
     (case cell_at h m of
        Some (ObjCell fs) \<Rightarrow>
          if k = ''__proto__'' \<and> map_of fs k = None then h
          else h[m := ObjCell (AList.update k v fs)]
      | _ \<Rightarrow> h)"

fun entriesH :: "cell \<Rightarrow> (string \<times> hval) list" where
  "entriesH (ObjCell fs) = fs"
| "entriesH (ArrCell xs) = index_entries xs"

text \<open>
  \<open>maskSensitiveDataH\<close> is \<open>maskSensitiveData(data)\<close> for the object or array at address \<open>a\<close>: it
  allocates \<open>masked\<close>, runs the loop \<open>mask_entriesH\<close> over the entries and returns the
  address of \<open>masked\<close> with the store it leaves. \<open>mask_valueH\<close> is the choice made for the
  value of a key that is not sensitive, \<open>mask_elemsH\<close> is \<open>value.map(...)\<close> and
  \<open>mask_elemH\<close> its callback. The fuel bounds the depth of the recursive calls (data
  that contains itself makes the source recurse until the stack overflows); \<open>None\<close> is a
  call that has not returned within it.
\<close>

function (sequential) maskSensitiveDataH :: "nat \<Rightarrow> (string \<Rightarrow> string) \<Rightarrow> string list \<Rightarrow> heap \<Rightarrow> nat \<Rightarrow> (heap \<times> nat) option"
  and mask_entriesH :: "nat \<Rightarrow> (string \<Rightarrow> string) \<Rightarrow> string list \<Rightarrow> heap \<Rightarrow> nat \<Rightarrow> (string \<times> hval) list \<Rightarrow> heap option"
  and mask_valueH :: "nat \<Rightarrow> (string \<Rightarrow> string) \<Rightarrow> string list \<Rightarrow> heap \<Rightarrow> hval \<Rightarrow> (heap \<times> hval) option"
  and mask_elemsH :: "nat \<Rightarrow> (string \<Rightarrow> string) \<Rightarrow> string list \<Rightarrow> heap \<Rightarrow> hval list \<Rightarrow> (heap \<times> hval list) option"
  and mask_elemH :: "nat \<Rightarrow> (string \<Rightarrow> string) \<Rightarrow> string list \<Rightarrow> heap \<Rightarrow> hval \<Rightarrow> (heap \<times> hval) option" where
  "maskSensitiveDataH 0 lc sf h a = None"
| "maskSensitiveDataH (Suc n) lc sf h a =
     (case cell_at h a of
        None \<Rightarrow> None
      | Some c \<Rightarrow>
          (case mask_entriesH n lc sf (h @ [ObjCell []]) (length h) (entriesH c) of
             None \<Rightarrow> None
           | Some h' \<Rightarrow> Some (h', length h)))"
| "mask_entriesH n lc sf h m [] = Some h"
| "mask_entriesH n lc sf h m (kv # rest) =
     (if isSensitive lc sf (fst kv)
      then mask_entriesH n lc sf (set_prop h m (fst kv) (Prim (PStr ''[REDACTED]''))) m rest
      else (case mask_valueH n lc sf h (snd kv) of
              None \<Rightarrow> None
            | Some hv \<Rightarrow> mask_entriesH n lc sf (set_prop (fst hv) m (fst kv) (snd hv)) m rest))"
| "mask_valueH n lc sf h (Prim p) = Some (h, Prim p)"
| "mask_valueH n lc sf h (Ref a) =
     (case cell_at h a of
        None \<Rightarrow> None
      | Some (ObjCell fs) \<Rightarrow>
          (case maskSensitiveDataH n lc sf h a of None \<Rightarrow> None | Some hr \<Rightarrow> Some (fst hr, Ref (snd hr)))
      | Some (ArrCell xs) \<Rightarrow>
          (case mask_elemsH n lc sf h xs of
             None \<Rightarrow> None
           | Some hys \<Rightarrow> Some (fst hys @ [ArrCell (snd hys)], Ref (length (fst hys)))))"
| "mask_elemsH n lc sf h [] = Some (h, [])"
| "mask_elemsH n lc sf h (x # xs) =
     (case mask_elemH n lc sf h x of
        None \<Rightarrow> None
      | Some hy \<Rightarrow>
          (case mask_elemsH n lc sf (fst hy) xs of
             None \<Rightarrow> None
           | Some hys \<Rightarrow> Some (fst hys, snd hy # snd hys)))"
| "mask_elemH n lc sf h (Prim p) = Some (h, Prim p)"
| "mask_elemH n lc sf h (Ref a) =
     (case maskSensitiveDataH n lc sf h a of None \<Rightarrow> None | Some hr \<Rightarrow> Some (fst hr, Ref (snd hr)))"
  by pat_completeness auto
termination
  by (relation "inv_image (less_than <*lex*> less_than <*lex*> less_than)
      (\<lambda>x. case x of
         Inl (Inl (n, lc, sf, h, a)) \<Rightarrow> (n, 0::nat, 0::nat)
       | Inl (Inr (n, lc, sf, h, m, es)) \<Rightarrow> (n, 4, length es)
       | Inr (Inl (n, lc, sf, h, v)) \<Rightarrow> (n, 3, 0)
       | Inr (Inr (Inl (n, lc, sf, h, xs))) \<Rightarrow> (n, 2, length xs)
       | Inr (Inr (Inr (n, lc, sf, h, v))) \<Rightarrow> (n, 1, 0))")
    auto

text \<open>
  \<open>refs_from k c\<close>: every reference held by the cell \<open>c\<close> is to an address from \<open>k\<close> on.
  \<open>built_fresh k h\<close>: the cells of \<open>h\<close> from address \<open>k\<close> on refer only to such cells, so
  nothing built there shares an object with the first \<open>k\<close> cells.
\<close>

fun val_from :: "nat \<Rightarrow> hval \<Rightarrow> bool" where
  "val_from k (Prim p) = True"
| "val_from k (Ref a) = (k \<le> a)"

fun refs_from :: "nat \<Rightarrow> cell \<Rightarrow> bool" where
  "refs_from k (ObjCell fs) = list_all (\<lambda>kv. val_from k (snd kv)) fs"
| "refs_from k (ArrCell xs) = list_all (val_from k) xs"

definition built_fresh :: "nat \<Rightarrow> heap \<Rightarrow> bool" where
  "built_fresh k h = list_all (refs_from k) (drop k h)"

text \<open>\<open>extends k h h'\<close>: the store \<open>h'\<close> has the cells of \<open>h\<close>, and maybe more, and its
  first \<open>k\<close> cells are those of \<open>h\<close>, unchanged.\<close>

definition extends :: "nat \<Rightarrow> heap \<Rightarrow> heap \<Rightarrow> bool" where
  "extends k h h' = (length h \<le> length h' \<and> take k h' = take k h)"

text \<open>
  \<open>depth_le n h a\<close>: below the object or array at \<open>a\<close>, calls of \<open>maskSensitiveData\<close> nest
  at most \<open>n\<close> deep (so the data does not contain itself), and no reference dangles.
\<close>

function (sequential) depth_le :: "nat \<Rightarrow> heap \<Rightarrow> nat \<Rightarrow> bool"
  and value_depth_le :: "nat \<Rightarrow> heap \<Rightarrow> hval \<Rightarrow> bool"
  and elem_depth_le :: "nat \<Rightarrow> heap \<Rightarrow> hval \<Rightarrow> bool" where
  "depth_le 0 h a = False"
| "depth_le (Suc n) h a =
     (case cell_at h a of
        None \<Rightarrow> False
      | Some c \<Rightarrow> list_all (\<lambda>kv. value_depth_le n h (snd kv)) (entriesH c))"
| "value_depth_le n h (Prim p) = True"
| "value_depth_le n h (Ref a) =
     (case cell_at h a of
        None \<Rightarrow> False
      | Some (ObjCell fs) \<Rightarrow> depth_le n h a
      | Some (ArrCell xs) \<Rightarrow> list_all (elem_depth_le n h) xs)"
| "elem_depth_le n h (Prim p) = True"
| "elem_depth_le n h (Ref a) = depth_le n h a"
  by pat_completeness auto
termination
  by (relation "inv_image (less_than <*lex*> less_than)
      (\<lambda>x. case x of
         Inl (n, h, a) \<Rightarrow> (n, 0::nat)
       | Inr (Inl (n, h, v)) \<Rightarrow> (n, 2)
       | Inr (Inr (n, h, v)) \<Rightarrow> (n, 1))")
    auto

text \<open>
  The store holding \<open>{password: "secret", user: {token: "abc"}, tags: ["a", {pin: 1}]}\<close>
  at address 0.
\<close>

definition heap_example :: heap where
  "heap_example =
     [ObjCell [(''password'', Prim (PStr ''secret'')), (''user'', Ref 1), (''tags'', Ref 2)],
      ObjCell [(''token'', Prim (PStr ''abc''))],
      ArrCell [Prim (PStr ''a''), Ref 3],
      ObjCell [(''pin'', Prim (PNum 1))]]"

section \<open>Trace-context carrier (interceptors/rabbitmq-interceptor.ts)\<close>

text \<open>
  Modelled from the spec: the propagator behind \<open>propagation.inject\<close> and
  \<open>propagation.extract\<close>, which the tracing setup registers and which is not among the
  sources. By the spec (data model, 4.1 and 6): a TraceContext has a 128-bit \<open>traceId\<close>
  and a 64-bit \<open>spanId\<close> (32 and 16 hex digits), a sampling flag and an optional
  \<open>traceState\<close>; the carrier has the two keys \<open>traceparent\<close> (version, traceId, spanId
  and flags as hex, joined by hyphens) and \<open>tracestate\<close> (passed through); injection
  merges the keys into the given pairs, and a carrier without a recognisable
  \<open>traceparent\<close> extracts to no parent (\<open>None\<close>).
\<close>

record TraceContext =
  traceId :: string
  spanId :: string
  traceFlags :: bool
  traceState :: "string option"

definition valid_TraceContext :: "TraceContext \<Rightarrow> bool" where
  "valid_TraceContext ctx =
     (length (traceId ctx) = 32 \<and> list_all is_hex (traceId ctx) \<and>
      length (spanId ctx) = 16 \<and> list_all is_hex (spanId ctx))"

text \<open>
  Modelled from the spec: the \<open>traceparent\<close> value, \<open>version-traceId-spanId-flags\<close>.
\<close>

definition traceparent_of :: "TraceContext \<Rightarrow> string" where
  "traceparent_of ctx =
     ''00-'' @ traceId ctx @ ''-'' @ spanId ctx @ ''-'' @ (if traceFlags ctx then ''01'' else ''00'')"

text \<open>
  Modelled from the spec: \<open>propagation.inject(context, carrier)\<close>, which writes the two
  keys into the carrier and leaves its other keys alone; a context without a span
  writes nothing.
\<close>

definition propagation_inject :: "TraceContext option \<Rightarrow> (string \<times> jsval) list \<Rightarrow> (string \<times> jsval) list" where
  "propagation_inject active carrier =
     (case active of
        None \<Rightarrow> carrier
      | Some ctx \<Rightarrow>
          (let c1 = obj_set carrier ''traceparent'' (JStr (traceparent_of ctx))
           in case traceState ctx of
                None \<Rightarrow> c1
              | Some ts \<Rightarrow> obj_set c1 ''tracestate'' (JStr ts)))"

text \<open>
  Modelled from the spec: reading a \<open>traceparent\<close> value back, by splitting at the
  hyphens and checking the four hex fields.
\<close>

fun split_on :: "char \<Rightarrow> string \<Rightarrow> string list" where
  "split_on c [] = [ [] ]"
| "split_on c (x # xs) =
     (if x = c then [] # split_on c xs
      else (case split_on c xs of [] \<Rightarrow> [ [x] ] | w # ws \<Rightarrow> (x # w) # ws))"

definition parse_traceparent :: "string \<Rightarrow> (string \<times> string \<times> bool) option" where
  "parse_traceparent s =
     (case split_on CHR ''-'' s of
        [version, tid, sid, flags] \<Rightarrow>
          if length version = 2 \<and> list_all is_hex version \<and>
             length tid = 32 \<and> list_all is_hex tid \<and>
             length sid = 16 \<and> list_all is_hex sid \<and>
             length flags = 2 \<and> list_all is_hex flags
          then Some (tid, sid, flags = ''01'')
          else None
      | _ \<Rightarrow> None)"

text \<open>
  Modelled from the spec: \<open>propagation.extract(context.active(), carrier)\<close>, giving the
  remote parent, or \<open>None\<close> (a root context) when the carrier has no recognisable
  \<open>traceparent\<close>.
\<close>

definition propagation_extract :: "(string \<times> jsval) list \<Rightarrow> TraceContext option" where
  "propagation_extract carrier =
     (case get_prop carrier ''traceparent'' of
        JStr s \<Rightarrow>
          (case parse_traceparent s of
             None \<Rightarrow> None
           | Some (tid, sid, sampled) \<Rightarrow>
               Some \<lparr>traceId = tid, spanId = sid, traceFlags = sampled,
                     traceState = (case get_prop carrier ''tracestate'' of
                                     JStr ts \<Rightarrow> Some ts | _ \<Rightarrow> None)\<rparr>)
      | _ \<Rightarrow> None)"

text \<open>
  \<open>injectRabbitMQContext(headers)\<close> and \<open>extractRabbitMQContext(headers)\<close> of the source;
  \<open>active\<close> is the trace context of \<open>context.active()\<close>, if it has one.
\<close>

definition injectRabbitMQContext :: "TraceContext option \<Rightarrow> (string \<times> jsval) list \<Rightarrow> (string \<times> jsval) list" where
  "injectRabbitMQContext active headers =
     (let enrichedHeaders = obj_spread [] headers
      in propagation_inject active enrichedHeaders)"

definition extractRabbitMQContext :: "(string \<times> jsval) list \<Rightarrow> TraceContext option" where
  "extractRabbitMQContext headers = propagation_extract headers"

definition ctx_example :: TraceContext where
  "ctx_example =
     \<lparr>traceId = ''0af7651916cd43dd8448eb211c80319c'', spanId = ''b7ad6b7169203331'',
      traceFlags = True, traceState = Some ''vendor=1''\<rparr>"

definition flags_of :: "TraceContext \<Rightarrow> string" where
  "flags_of ctx = (if traceFlags ctx then ''01'' else ''00'')"

section \<open>Excluded paths record no request metric\<close>

lemma shouldIgnore_prefixes:
  "shouldIgnore p \<longleftrightarrow>
     prefix ''/health'' p \<or> prefix ''/healthz'' p \<or> prefix ''/ready'' p \<or>
     prefix ''/metrics'' p \<or> prefix ''/favicon.ico'' p"
  by (simp add: shouldIgnore_def ignoredPaths_def)

text \<open>
  C8. A request whose path starts with \<open>/health\<close>, \<open>/healthz\<close>, \<open>/ready\<close>, \<open>/metrics\<close> or
  \<open>/favicon.ico\<close> passes through the middleware with \<open>next\<close> called once and no \<open>finish\<close>
  listener registered, so that when the response finishes, exactly the metrics are
  recorded that would have been recorded without the middleware: none for this request.
\<close>

theorem excluded_path_records_no_metric:
  assumes "prefix ''/health'' (req_path req) \<or> prefix ''/healthz'' (req_path req) \<or>
           prefix ''/ready'' (req_path req) \<or> prefix ''/metrics'' (req_path req) \<or>
           prefix ''/favicon.ico'' (req_path req)"
  shows "finish_listeners (httpMetricsMiddleware req now st) = finish_listeners st \<and>
         next_calls (httpMetricsMiddleware req now st) = Suc (next_calls st) \<and>
         http_metrics (httpMetricsMiddleware req now st) = http_metrics st \<and>
         http_metrics (emit_finish code later (httpMetricsMiddleware req now st)) =
           http_metrics (emit_finish code later st)"
proof -
  from assms have "shouldIgnore (req_path req)"
    by (simp only: shouldIgnore_prefixes)
  then show ?thesis
    by (simp add: httpMetricsMiddleware_def emit_finish_def)
qed

theorem excluded_path_records_no_metric_witness:
  "prefix ''/health'' ''/healthz/live'' \<and>
   http_metrics (emit_finish 200 12
     (httpMetricsMiddleware \<lparr>req_method = ''GET'', req_path = ''/healthz/live'',
         req_baseUrl = [], req_route_path = None\<rparr> 5
        \<lparr>finish_listeners = [], next_calls = 0, http_metrics = []\<rparr>)) = [] \<and>
   next_calls (httpMetricsMiddleware \<lparr>req_method = ''GET'', req_path = ''/healthz/live'',
         req_baseUrl = [], req_route_path = None\<rparr> 5
        \<lparr>finish_listeners = [], next_calls = 0, http_metrics = []\<rparr>) = 1"
  using excluded_path_records_no_metric [of "\<lparr>req_method = ''GET'', req_path = ''/healthz/live'',
         req_baseUrl = [], req_route_path = None\<rparr>" 5
      "\<lparr>finish_listeners = [], next_calls = 0, http_metrics = []\<rparr>" 200 12]
  by (simp add: emit_finish_def)

section \<open>Route normalisation\<close>

lemma match_classes_length: "match_classes p s \<Longrightarrow> length p \<le> length s"
  by (induction p s rule: match_classes.induct) auto

lemma match_classes_append: "match_classes p s \<Longrightarrow> match_classes p (s @ r)"
  by (induction p s rule: match_classes.induct) auto

lemma match_classes_chars:
  "match_classes p s \<Longrightarrow> i < length p \<Longrightarrow> is_hex (s ! i) \<or> s ! i = CHR ''-''"
  by (induction p s arbitrary: i rule: match_classes.induct) (auto simp: nth_Cons split: nat.splits if_splits)

lemma match_classes_take:
  "match_classes p (s @ r) \<Longrightarrow> length p \<le> length s \<Longrightarrow> match_classes p s"
  by (induction p s rule: match_classes.induct) auto

lemma slash_not_class: "\<not> is_hex (CHR ''/'')" "CHR ''/'' \<noteq> CHR ''-''" "\<not> is_digit (CHR ''/'')"
  by (simp_all add: is_hex_def is_digit_def)

lemma length_uuid_classes: "length uuid_classes = 36"
  by (simp add: uuid_classes_def)

lemma uuid_at_boundary:
  assumes "uuid_at (t @ r)" and "r = [] \<or> hd r = CHR ''/''"
  shows "uuid_at t"
proof -
  have m: "match_classes uuid_classes (t @ r)" using assms(1) by (simp add: uuid_at_def)
  have "36 \<le> length t"
  proof (rule ccontr)
    assume "\<not> 36 \<le> length t"
    then have lt: "length t < 36" by simp
    from match_classes_length [OF m] have "36 \<le> length (t @ r)" by (simp add: length_uuid_classes)
    with lt have "r \<noteq> []" by auto
    with assms(2) have "(t @ r) ! length t = CHR ''/''" by (cases r) (auto simp: nth_append)
    moreover from match_classes_chars [OF m, of "length t"] lt
    have "is_hex ((t @ r) ! length t) \<or> (t @ r) ! length t = CHR ''-''" by (simp add: length_uuid_classes)
    ultimately show False using slash_not_class by auto
  qed
  then show ?thesis using match_classes_take [OF m] by (simp add: uuid_at_def length_uuid_classes)
qed

lemma replace_uuid_skip: "replace_uuid (length xs) (xs @ ys) = replace_uuid 0 ys"
  by (induction xs) auto

lemma uuid_at_append: "uuid_at t \<Longrightarrow> uuid_at (t @ r)"
  by (simp add: uuid_at_def match_classes_append)

lemma replace_uuid_segment:
  assumes "uuid_segment s"
  shows "replace_uuid 0 (s @ r) = '':id'' @ replace_uuid 0 r"
proof -
  from assms obtain c cs where s: "s = c # cs" and len: "length cs = 35" and u: "uuid_at s"
    by (cases s) (auto simp: uuid_segment_def)
  from u have "uuid_at (c # cs @ r)" using uuid_at_append [of s r] by (simp add: s)
  then have "replace_uuid 0 (s @ r) = '':id'' @ replace_uuid (length cs) (cs @ r)"
    by (simp add: s len)
  then show ?thesis by (simp only: replace_uuid_skip)
qed

lemma replace_uuid_no_match:
  assumes "\<forall>i < length s. \<not> uuid_at (drop i s @ r)"
  shows "replace_uuid 0 (s @ r) = s @ replace_uuid 0 r"
  using assms
proof (induction s)
  case Nil
  then show ?case by simp
next
  case (Cons c cs)
  from Cons.prems have "\<not> uuid_at (drop 0 (c # cs) @ r)" by blast
  then have n: "\<not> uuid_at (c # cs @ r)" by simp
  have "\<forall>i < length cs. \<not> uuid_at (drop i cs @ r)"
  proof (intro allI impI)
    fix i assume "i < length cs"
    then have "Suc i < length (c # cs)" by simp
    with Cons.prems have "\<not> uuid_at (drop (Suc i) (c # cs) @ r)" by blast
    then show "\<not> uuid_at (drop i cs @ r)" by simp
  qed
  with Cons.IH have "replace_uuid 0 (cs @ r) = cs @ replace_uuid 0 r" by blast
  with n show ?case by simp
qed

lemma uuid_at_dash: "uuid_at s \<Longrightarrow> s ! 8 = CHR ''-''"
  by (simp add: uuid_at_def uuid_classes_def numeral_eq_Suc)
    (auto simp: nth_Cons' neq_Nil_conv elim!: match_classes.elims)

lemma join_path_boundary: "join_path segs = [] \<or> hd (join_path segs) = CHR ''/''"
  by (cases segs) (simp_all add: join_path_def)

lemma join_path_Cons: "join_path (s # segs) = CHR ''/'' # s @ join_path segs"
  by (simp add: join_path_def)

lemma numeric_no_uuid:
  assumes "numeric_segment s" and "r = [] \<or> hd r = CHR ''/''"
  shows "\<not> uuid_at (drop i s @ r)"
proof
  assume "uuid_at (drop i s @ r)"
  then have u: "uuid_at (drop i s)" using assms(2) by (rule uuid_at_boundary)
  then have "36 \<le> length (drop i s)"
    using match_classes_length [of uuid_classes "drop i s"]
    by (simp add: uuid_at_def length_uuid_classes)
  then have "drop i s ! 8 \<in> set (drop i s)" by (intro nth_mem) simp
  then have "drop i s ! 8 \<in> set s" by (rule in_set_dropD)
  with assms(1) have "is_digit (drop i s ! 8)" by (simp add: numeric_segment_def list_all_iff)
  with uuid_at_dash [OF u] show False by (simp add: is_digit_def)
qed

lemma plain_no_uuid:
  assumes "plain_segment s" and "r = [] \<or> hd r = CHR ''/''" and "i < length s"
  shows "\<not> uuid_at (drop i s @ r)"
proof
  assume "uuid_at (drop i s @ r)"
  then have "uuid_at (drop i s)" using assms(2) by (rule uuid_at_boundary)
  with assms(1,3) show False by (simp add: plain_segment_def list_all_iff)
qed

lemma slash_no_uuid: "\<not> uuid_at (CHR ''/'' # t)"
  by (simp add: uuid_at_def uuid_classes_def numeral_eq_Suc is_hex_def)

lemma replace_uuid_join:
  assumes "\<forall>s \<in> set segs. uuid_segment s \<or> numeric_segment s \<or> plain_segment s"
  shows "replace_uuid 0 (join_path segs) = join_path (map pass1 segs)"
  using assms
proof (induction segs)
  case Nil
  then show ?case by (simp add: join_path_def)
next
  case (Cons s segs)
  let ?r = "join_path segs"
  have b: "?r = [] \<or> hd ?r = CHR ''/''" by (rule join_path_boundary)
  from Cons have IH: "replace_uuid 0 ?r = join_path (map pass1 segs)" by simp
  have "replace_uuid 0 (s @ ?r) = pass1 s @ replace_uuid 0 ?r"
  proof (cases "uuid_segment s")
    case True
    then show ?thesis by (simp add: pass1_def replace_uuid_segment)
  next
    case False
    with Cons.prems have "numeric_segment s \<or> plain_segment s" by simp
    with b have "\<forall>i < length s. \<not> uuid_at (drop i s @ ?r)"
      using numeric_no_uuid plain_no_uuid by blast
    then show ?thesis using False by (simp add: pass1_def replace_uuid_no_match)
  qed
  with IH show ?case by (simp add: join_path_Cons slash_no_uuid)
qed

lemma replace_slash_digits_no_slash:
  "CHR ''/'' \<notin> set s \<Longrightarrow> replace_slash_digits (s @ r) = s @ replace_slash_digits r"
  by (induction s) auto

lemma dropWhile_digits:
  "list_all is_digit s \<Longrightarrow> r = [] \<or> hd r = CHR ''/'' \<Longrightarrow> dropWhile is_digit (s @ r) = r"
  by (induction s) (cases r; auto simp: is_digit_def)+

lemma replace_slash_digits_keep:
  "t = [] \<or> \<not> is_digit (hd t) \<Longrightarrow>
   replace_slash_digits (CHR ''/'' # t) = CHR ''/'' # replace_slash_digits t"
  by auto

lemma digit_not_slash: "list_all is_digit s \<Longrightarrow> CHR ''/'' \<notin> set s"
  by (auto simp: list_all_iff is_digit_def)

lemma replace_slash_digits_join:
  assumes "\<forall>s \<in> set segs. numeric_segment s \<or> (CHR ''/'' \<notin> set s \<and> (s = [] \<or> \<not> is_digit (hd s)))"
  shows "replace_slash_digits (join_path segs) = join_path (map pass2 segs)"
  using assms
proof (induction segs)
  case Nil
  then show ?case by (simp add: join_path_def)
next
  case (Cons s segs)
  let ?r = "join_path segs"
  have b: "?r = [] \<or> hd ?r = CHR ''/''" by (rule join_path_boundary)
  from Cons have IH: "replace_slash_digits ?r = join_path (map pass2 segs)" by simp
  have "replace_slash_digits (CHR ''/'' # s @ ?r) = CHR ''/'' # pass2 s @ replace_slash_digits ?r"
  proof (cases "numeric_segment s")
    case True
    then have "s \<noteq> []" "is_digit (hd s)" "list_all is_digit s"
      by (auto simp: numeric_segment_def neq_Nil_conv)
    then show ?thesis using True b
      by (simp add: pass2_def dropWhile_digits)
  next
    case False
    with Cons.prems have ns: "CHR ''/'' \<notin> set s" and hd: "s = [] \<or> \<not> is_digit (hd s)" by auto
    have "s @ ?r = [] \<or> \<not> is_digit (hd (s @ ?r))"
      using hd b by (cases s) (auto simp: is_digit_def)
    then have "replace_slash_digits (CHR ''/'' # s @ ?r) = CHR ''/'' # replace_slash_digits (s @ ?r)"
      by (rule replace_slash_digits_keep)
    then show ?thesis using False ns
      by (simp add: pass2_def replace_slash_digits_no_slash)
  qed
  with IH show ?case by (simp add: join_path_Cons)
qed

lemma pass1_ok:
  assumes "uuid_segment s \<or> numeric_segment s \<or> plain_segment s"
  shows "numeric_segment (pass1 s) \<or>
         (CHR ''/'' \<notin> set (pass1 s) \<and> (pass1 s = [] \<or> \<not> is_digit (hd (pass1 s))))"
  using assms by (auto simp: pass1_def plain_segment_def is_digit_def)

lemma not_numeric_id: "\<not> numeric_segment '':id''"
  by (simp add: numeric_segment_def is_digit_def)

lemma uuid_not_numeric: "uuid_segment s \<Longrightarrow> \<not> numeric_segment s"
  using numeric_no_uuid [of s "[]" 0] by (auto simp: uuid_segment_def)

lemma pass2_pass1: "pass2 (pass1 s) = normalize_segment s"
  using uuid_not_numeric [of s]
  by (auto simp: pass1_def pass2_def normalize_segment_def not_numeric_id)

lemma segments_normalized:
  assumes "req_route_path req = None"
    and "req_path req = join_path segs"
    and "\<forall>s \<in> set segs. uuid_segment s \<or> numeric_segment s \<or> plain_segment s"
  shows "getRoute req = join_path (map normalize_segment segs)"
proof -
  have "replace_uuid 0 (join_path segs) = join_path (map pass1 segs)"
    using assms(3) by (rule replace_uuid_join)
  moreover have "replace_slash_digits (join_path (map pass1 segs)) = join_path (map pass2 (map pass1 segs))"
    using assms(3) by (intro replace_slash_digits_join) (simp add: pass1_ok)
  ultimately show ?thesis
    using assms(1,2) by (simp add: getRoute_def pass2_pass1 comp_def)
qed

lemma uuid_free_iff: "uuid_free pre r \<longleftrightarrow> (\<forall>i < length pre. \<not> uuid_at (drop i pre @ r))"
  by (auto simp: uuid_free_def list_all_iff)

lemma slash_digit_free_iff:
  "slash_digit_free pre r \<longleftrightarrow> (\<forall>i < length pre. \<not> slash_digit_at (drop i pre @ r))"
  by (auto simp: slash_digit_free_def list_all_iff)

lemma slash_digit_at_Cons:
  "slash_digit_at (c # cs) \<longleftrightarrow> c = CHR ''/'' \<and> cs \<noteq> [] \<and> is_digit (hd cs)"
  by (cases cs) (simp_all add: slash_digit_at_def)

lemma replace_slash_digits_no_match:
  assumes "\<forall>i < length s. \<not> slash_digit_at (drop i s @ r)"
  shows "replace_slash_digits (s @ r) = s @ replace_slash_digits r"
  using assms
proof (induction s)
  case Nil
  then show ?case by simp
next
  case (Cons c cs)
  from Cons.prems have "\<not> slash_digit_at (drop 0 (c # cs) @ r)" by blast
  then have n: "\<not> (c = CHR ''/'' \<and> cs @ r \<noteq> [] \<and> is_digit (hd (cs @ r)))"
    by (simp add: slash_digit_at_Cons)
  have "\<forall>i < length cs. \<not> slash_digit_at (drop i cs @ r)"
  proof (intro allI impI)
    fix i assume "i < length cs"
    then have "Suc i < length (c # cs)" by simp
    with Cons.prems have "\<not> slash_digit_at (drop (Suc i) (c # cs) @ r)" by blast
    then show "\<not> slash_digit_at (drop i cs @ r)" by simp
  qed
  with Cons.IH have "replace_slash_digits (cs @ r) = cs @ replace_slash_digits r" by blast
  with n show ?case by auto
qed

lemma dropWhile_digit_run:
  "list_all is_digit ds \<Longrightarrow> rest = [] \<or> \<not> is_digit (hd rest) \<Longrightarrow>
   dropWhile is_digit (ds @ rest) = rest"
  by (induction ds) (cases rest; auto)+

lemma replace_slash_digits_match:
  assumes "digit_run ds rest"
  shows "replace_slash_digits (CHR ''/'' # ds @ rest) = ''/:id'' @ replace_slash_digits rest"
proof -
  from assms have ne: "ds \<noteq> []" and all: "list_all is_digit ds"
    and stop: "rest = [] \<or> \<not> is_digit (hd rest)"
    by (simp_all add: digit_run_def)
  from ne all have "is_digit (hd (ds @ rest))" by (cases ds) simp_all
  with ne have "replace_slash_digits (CHR ''/'' # ds @ rest)
          = ''/:id'' @ replace_slash_digits (dropWhile is_digit (ds @ rest))"
    by simp
  with all stop show ?thesis by (simp only: dropWhile_digit_run)
qed

text \<open>
  C7 (as amended). With no matched route template the route label is the path after two
  global replacements. The first replaces every match of the UUID pattern, leftmost
  first and without overlap, wherever it occurs: a string in which the pattern matches
  nowhere is unchanged, and a string \<open>pre @ u @ rest\<close> whose leftmost match is \<open>u\<close>
  becomes \<open>pre\<close>, then \<open>:id\<close>, then the replacement of \<open>rest\<close>. The second does the same
  with a slash followed by a maximal run of digits, which becomes \<open>/:id\<close>. For a path
  whose segments are each UUID-shaped, purely numeric, or plain, the result is the path
  with exactly the UUID-shaped and the purely numeric segments replaced by \<open>:id\<close>.
\<close>

theorem getRoute_two_passes:
  "(req_route_path req = None \<longrightarrow>
      getRoute req = replace_slash_digits (replace_uuid 0 (req_path req))) \<and>
   (uuid_free s [] \<longrightarrow> replace_uuid 0 s = s) \<and>
   (uuid_free pre (u @ rest) \<and> uuid_segment u \<longrightarrow>
      replace_uuid 0 (pre @ u @ rest) = pre @ '':id'' @ replace_uuid 0 rest) \<and>
   (slash_digit_free t [] \<longrightarrow> replace_slash_digits t = t) \<and>
   (slash_digit_free pre' (CHR ''/'' # ds @ rest') \<and> digit_run ds rest' \<longrightarrow>
      replace_slash_digits (pre' @ CHR ''/'' # ds @ rest')
        = pre' @ ''/:id'' @ replace_slash_digits rest') \<and>
   (req_route_path req = None \<and> req_path req = join_path segs \<and>
    (\<forall>s \<in> set segs. uuid_segment s \<or> numeric_segment s \<or> plain_segment s) \<longrightarrow>
      getRoute req = join_path (map normalize_segment segs))"
proof -
  have a: "req_route_path req = None \<longrightarrow>
      getRoute req = replace_slash_digits (replace_uuid 0 (req_path req))"
    by (simp add: getRoute_def)
  have b: "uuid_free s [] \<longrightarrow> replace_uuid 0 s = s"
    using replace_uuid_no_match [of s "[]"] by (simp add: uuid_free_iff)
  have c: "uuid_free pre (u @ rest) \<and> uuid_segment u \<longrightarrow>
      replace_uuid 0 (pre @ u @ rest) = pre @ '':id'' @ replace_uuid 0 rest"
    using replace_uuid_no_match [of pre "u @ rest"] replace_uuid_segment [of u rest]
    by (simp add: uuid_free_iff)
  have d: "slash_digit_free t [] \<longrightarrow> replace_slash_digits t = t"
    using replace_slash_digits_no_match [of t "[]"] by (simp add: slash_digit_free_iff)
  have e: "slash_digit_free pre' (CHR ''/'' # ds @ rest') \<and> digit_run ds rest' \<longrightarrow>
      replace_slash_digits (pre' @ CHR ''/'' # ds @ rest')
        = pre' @ ''/:id'' @ replace_slash_digits rest'"
    using replace_slash_digits_no_match [of pre' "CHR ''/'' # ds @ rest'"]
      replace_slash_digits_match [of ds rest']
    by (simp add: slash_digit_free_iff)
  have f: "req_route_path req = None \<and> req_path req = join_path segs \<and>
    (\<forall>s \<in> set segs. uuid_segment s \<or> numeric_segment s \<or> plain_segment s) \<longrightarrow>
      getRoute req = join_path (map normalize_segment segs)"
    using segments_normalized [of req segs] by blast
  from a b c d e f show ?thesis
    by (intro conjI)
qed

theorem getRoute_two_passes_witness:
  "req_route_path req_2fa_42 = None \<and>
   getRoute req_2fa_42 = ''/:idfa/:id'' \<and>
   uuid_free ''/2fa/42'' [] \<and>
   replace_uuid 0 ''/2fa/42'' = ''/2fa/42'' \<and>
   uuid_free ''/x'' (uuid_example @ ''z/7'') \<and>
   uuid_segment uuid_example \<and>
   replace_uuid 0 (''/x'' @ uuid_example @ ''z/7'') = ''/x:idz/7'' \<and>
   slash_digit_free ''/users'' [] \<and>
   replace_slash_digits ''/users'' = ''/users'' \<and>
   slash_digit_free ''/a'' (CHR ''/'' # ''42'' @ ''/b'') \<and>
   digit_run ''42'' ''/b'' \<and>
   replace_slash_digits (''/a'' @ CHR ''/'' # ''42'' @ ''/b'') = ''/a/:id/b'' \<and>
   req_route_path req_users_uuid = None \<and>
   req_path req_users_uuid = join_path [''users'', uuid_example] \<and>
   plain_segment ''users'' \<and>
   getRoute req_users_uuid = ''/users/:id''"
proof -
  have h1: "req_route_path req_2fa_42 = None"
    by (simp add: req_2fa_42_def)
  have h2: "uuid_free ''/2fa/42'' []"
    by code_simp
  have h3: "uuid_free ''/x'' (uuid_example @ ''z/7'')"
    by code_simp
  have h4: "uuid_segment uuid_example"
    by code_simp
  have h5: "slash_digit_free ''/users'' []"
    by code_simp
  have h6: "slash_digit_free ''/a'' (CHR ''/'' # ''42'' @ ''/b'')"
    by code_simp
  have h7: "digit_run ''42'' ''/b''"
    by code_simp
  have h8: "req_route_path req_users_uuid = None"
    by (simp add: req_users_uuid_def)
  have h9: "req_path req_users_uuid = join_path [''users'', uuid_example]"
    by (simp add: req_users_uuid_def join_path_def uuid_example_def)
  have h10: "plain_segment ''users''"
    by code_simp
  have h11: "\<forall>s \<in> set [''users'', uuid_example].
      uuid_segment s \<or> numeric_segment s \<or> plain_segment s"
    using h4 h10 by simp
  have e1: "replace_slash_digits (replace_uuid 0 (req_path req_2fa_42)) = ''/:idfa/:id''"
    by code_simp
  have e2: "replace_uuid 0 ''z/7'' = ''z/7''"
    by code_simp
  have e3: "replace_slash_digits ''/b'' = ''/b''"
    by code_simp
  have e4: "join_path (map normalize_segment [''users'', uuid_example]) = ''/users/:id''"
    by code_simp
  note t1 = getRoute_two_passes [of req_2fa_42 "''/2fa/42''" "''/x''" uuid_example "''z/7''"
      "''/users''" "''/a''" "''42''" "''/b''" "[]"]
  note t2 = getRoute_two_passes [of req_users_uuid "[]" "[]" uuid_example "[]" "[]" "[]" "''42''"
      "[]" "[''users'', uuid_example]"]
  from t1 h1 e1 have r1: "getRoute req_2fa_42 = ''/:idfa/:id''"
    by simp
  from t1 h2 have r2: "replace_uuid 0 ''/2fa/42'' = ''/2fa/42''"
    by blast
  from t1 h3 h4 e2 have r3: "replace_uuid 0 (''/x'' @ uuid_example @ ''z/7'') = ''/x:idz/7''"
    by simp
  from t1 h5 have r4: "replace_slash_digits ''/users'' = ''/users''"
    by blast
  from t1 h6 h7 e3
  have r5: "replace_slash_digits (''/a'' @ CHR ''/'' # ''42'' @ ''/b'') = ''/a/:id/b''"
    by simp
  from t2 h8 h9 h11
  have "getRoute req_users_uuid = join_path (map normalize_segment [''users'', uuid_example])"
    by blast
  with e4 have r6: "getRoute req_users_uuid = ''/users/:id''"
    by simp
  from h1 r1 h2 r2 h3 h4 r3 h5 r4 h6 h7 r5 h8 h9 h10 r6 show ?thesis
    by (intro conjI)
qed

text \<open>
  C7 as stated fails: the segment \<open>123abc\<close> is neither UUID-shaped nor purely numeric,
  yet its leading digits are replaced.
\<close>

theorem getRoute_changes_other_segments:
  "req_route_path req_users_123abc = None \<and>
   req_path req_users_123abc = join_path [''users'', ''123abc''] \<and>
   getRoute req_users_123abc = ''/users/:idabc'' \<and>
   getRoute req_users_123abc \<noteq> join_path (map normalize_segment [''users'', ''123abc''])"
  by code_simp

text \<open>
  The two equations given for each pass determine it: a function that leaves a string
  without a match unchanged, and that keeps the text before a leftmost match, replaces
  the match and goes on after it in the same way, is the pass itself.
\<close>

lemma uuid_pass_unique:
  assumes none: "\<And>s. uuid_free s [] \<Longrightarrow> f s = s"
    and hit: "\<And>pre u rest. uuid_free pre (u @ rest) \<Longrightarrow> uuid_segment u \<Longrightarrow>
                f (pre @ u @ rest) = pre @ '':id'' @ f rest"
  shows "f s = replace_uuid 0 s"
proof (induction "length s" arbitrary: s rule: less_induct)
  case less
  show ?case
  proof (cases "uuid_free s []")
    case True
    then have "replace_uuid 0 s = s"
      using replace_uuid_no_match [of s "[]"] by (simp add: uuid_free_iff)
    with none [OF True] show ?thesis by simp
  next
    case False
    then have ex: "\<exists>i. i < length s \<and> uuid_at (drop i s)"
      by (auto simp: uuid_free_iff)
    define j where "j = (LEAST i. i < length s \<and> uuid_at (drop i s))"
    from ex have j: "j < length s \<and> uuid_at (drop j s)"
      unfolding j_def by (rule LeastI_ex)
    have least: "\<not> uuid_at (drop k s)" if "k < j" for k
    proof
      assume "uuid_at (drop k s)"
      with that j have "k < length s \<and> uuid_at (drop k s)" by simp
      then have "j \<le> k" unfolding j_def by (rule Least_le)
      with that show False by simp
    qed
    define pre where "pre = take j s"
    define u where "u = take 36 (drop j s)"
    define rest where "rest = drop 36 (drop j s)"
    have "s = take j s @ drop j s" by simp
    also have "drop j s = take 36 (drop j s) @ drop 36 (drop j s)"
      by (rule append_take_drop_id [symmetric])
    finally have s: "s = pre @ u @ rest"
      by (simp only: pre_def u_def rest_def)
    from j have "36 \<le> length (drop j s)"
      using match_classes_length [of uuid_classes "drop j s"]
      by (simp add: uuid_at_def length_uuid_classes)
    then have lu: "length u = 36"
      by (simp add: u_def)
    have "drop j s = u @ rest"
      unfolding u_def rest_def by (rule append_take_drop_id [symmetric])
    with j have "uuid_at (u @ rest)" by simp
    then have "uuid_at u"
      using match_classes_take [of uuid_classes u rest] lu
      by (simp add: uuid_at_def length_uuid_classes)
    with lu have seg: "uuid_segment u"
      by (simp add: uuid_segment_def)
    have lp: "length pre = j"
      using j by (simp add: pre_def)
    have free: "uuid_free pre (u @ rest)"
      unfolding uuid_free_iff
    proof (intro allI impI)
      fix k assume k: "k < length pre"
      then have "drop k (pre @ u @ rest) = drop k pre @ u @ rest"
        by simp
      then have "drop k pre @ u @ rest = drop k s"
        by (simp only: s [symmetric])
      with least [of k] k lp show "\<not> uuid_at (drop k pre @ u @ rest)"
        by simp
    qed
    have "length (pre @ u @ rest) = length pre + 36 + length rest"
      using lu by simp
    then have "length rest < length s"
      by (simp only: s [symmetric])
    then have IH: "f rest = replace_uuid 0 rest"
      by (rule less)
    have "f s = pre @ '':id'' @ f rest"
      using hit [OF free seg] by (simp add: s [symmetric])
    moreover have "replace_uuid 0 s = pre @ '':id'' @ replace_uuid 0 rest"
      using replace_uuid_no_match [of pre "u @ rest"] replace_uuid_segment [OF seg, of rest] free
      by (simp add: uuid_free_iff s [symmetric])
    ultimately show ?thesis using IH by simp
  qed
qed

lemma slash_digit_pass_unique:
  assumes none: "\<And>s. slash_digit_free s [] \<Longrightarrow> g s = s"
    and hit: "\<And>pre ds rest. slash_digit_free pre (CHR ''/'' # ds @ rest) \<Longrightarrow> digit_run ds rest \<Longrightarrow>
                g (pre @ CHR ''/'' # ds @ rest) = pre @ ''/:id'' @ g rest"
  shows "g s = replace_slash_digits s"
proof (induction "length s" arbitrary: s rule: less_induct)
  case less
  show ?case
  proof (cases "slash_digit_free s []")
    case True
    then have "replace_slash_digits s = s"
      using replace_slash_digits_no_match [of s "[]"] by (simp add: slash_digit_free_iff)
    with none [OF True] show ?thesis by simp
  next
    case False
    then have ex: "\<exists>i. i < length s \<and> slash_digit_at (drop i s)"
      by (auto simp: slash_digit_free_iff)
    define j where "j = (LEAST i. i < length s \<and> slash_digit_at (drop i s))"
    from ex have j: "j < length s \<and> slash_digit_at (drop j s)"
      unfolding j_def by (rule LeastI_ex)
    have least: "\<not> slash_digit_at (drop k s)" if "k < j" for k
    proof
      assume "slash_digit_at (drop k s)"
      with that j have "k < length s \<and> slash_digit_at (drop k s)" by simp
      then have "j \<le> k" unfolding j_def by (rule Least_le)
      with that show False by simp
    qed
    from j obtain d t where dj: "drop j s = CHR ''/'' # d # t" and d: "is_digit d"
      by (auto simp: slash_digit_at_def split: list.splits)
    define pre where "pre = take j s"
    define ds where "ds = takeWhile is_digit (d # t)"
    define rest where "rest = dropWhile is_digit (d # t)"
    have dt: "d # t = ds @ rest"
      by (simp add: ds_def rest_def)
    have "s = take j s @ drop j s" by simp
    then have s: "s = pre @ CHR ''/'' # ds @ rest"
      by (simp only: pre_def dj dt)
    have run: "digit_run ds rest"
    proof -
      have "ds \<noteq> []" using d by (simp add: ds_def)
      moreover have "list_all is_digit ds"
        by (auto simp: ds_def list_all_iff dest: set_takeWhileD)
      moreover have "rest = [] \<or> \<not> is_digit (hd rest)"
        unfolding rest_def using hd_dropWhile [of is_digit "d # t"] by blast
      ultimately show ?thesis by (simp add: digit_run_def)
    qed
    have lp: "length pre = j"
      using j by (simp add: pre_def)
    have free: "slash_digit_free pre (CHR ''/'' # ds @ rest)"
      unfolding slash_digit_free_iff
    proof (intro allI impI)
      fix k assume k: "k < length pre"
      then have "drop k (pre @ CHR ''/'' # ds @ rest) = drop k pre @ CHR ''/'' # ds @ rest"
        by simp
      then have "drop k pre @ CHR ''/'' # ds @ rest = drop k s"
        by (simp only: s [symmetric])
      with least [of k] k lp show "\<not> slash_digit_at (drop k pre @ CHR ''/'' # ds @ rest)"
        by simp
    qed
    have "length (pre @ CHR ''/'' # ds @ rest) = Suc (length pre + length ds + length rest)"
      by simp
    then have "length rest < length s"
      by (simp only: s [symmetric])
    then have IH: "g rest = replace_slash_digits rest"
      by (rule less)
    have "g s = pre @ ''/:id'' @ g rest"
      using hit [OF free run] by (simp add: s [symmetric])
    moreover have "replace_slash_digits s = pre @ ''/:id'' @ replace_slash_digits rest"
      using replace_slash_digits_no_match [of pre "CHR ''/'' # ds @ rest"]
        replace_slash_digits_match [OF run] free
      by (simp add: slash_digit_free_iff s [symmetric])
    ultimately show ?thesis using IH by simp
  qed
qed

section \<open>Error middleware response\<close>

lemma ErrorType_value_inj: "ErrorType_value a = ErrorType_value b \<longleftrightarrow> a = b"
  by (cases a; cases b; simp)

lemma classify_axios:
  "ErrorType_value (classifyError e) = ''AxiosError'' \<longleftrightarrow>
     has_prop e ''isAxiosError'' \<and> truthy (get_prop e ''isAxiosError'')"
  using ErrorType_value_inj [of "classifyError e" AXIOS]
  by (simp add: classifyError_def isAxiosError_def)

lemma prisma_name_present:
  "get_prop e ''name'' = JStr ''PrismaClientKnownRequestError'' \<Longrightarrow> has_prop e ''name''"
  by (auto simp: has_prop_def get_prop_def split: option.splits)

lemma classify_prisma:
  "ErrorType_value (classifyError e) = ''PrismaClientKnownRequestError'' \<longleftrightarrow>
     \<not> (has_prop e ''isAxiosError'' \<and> truthy (get_prop e ''isAxiosError'')) \<and>
     has_prop e ''code'' \<and> has_prop e ''clientVersion'' \<and>
     get_prop e ''name'' = JStr ''PrismaClientKnownRequestError''"
  using ErrorType_value_inj [of "classifyError e" PRISMA_KNOWN] prisma_name_present [of e]
  by (auto simp: classifyError_def isAxiosError_def isPrismaKnownRequestError_def)

lemma classify_generic:
  "ErrorType_value (classifyError e) = ''Error'' \<longleftrightarrow>
     \<not> (has_prop e ''isAxiosError'' \<and> truthy (get_prop e ''isAxiosError'')) \<and>
     \<not> (has_prop e ''code'' \<and> has_prop e ''clientVersion'' \<and>
        get_prop e ''name'' = JStr ''PrismaClientKnownRequestError'')"
  using ErrorType_value_inj [of "classifyError e" GENERIC] prisma_name_present [of e]
  by (auto simp: classifyError_def isAxiosError_def isPrismaKnownRequestError_def)

lemma status_absent: "\<not> has_prop e ''status'' \<Longrightarrow> \<not> truthy (get_prop e ''status'')"
  by (simp add: has_prop_def get_prop_def)

text \<open>
  C10 (as amended). Under a framework that takes exactly the integers from 100 to 999
  as status codes: when the error's \<open>status\<close> is absent or falsy (\<open>undefined\<close>, \<open>null\<close>,
  \<open>false\<close>, 0, the empty string) the response is sent with status 500; when it is an
  integer from 100 to 999 the response is sent with that status; when it is any other
  non-zero integer the call throws and no response is sent; for every status value a
  response is sent exactly when the framework takes \<open>error.status || 500\<close> as a status
  code. A response that is sent has the body \<open>{error: {message, type}}\<close> with the error's
  message and the classified type, which is \<open>AxiosError\<close> exactly when \<open>isAxiosError\<close> is
  present and truthy, \<open>PrismaClientKnownRequestError\<close> exactly when the error is not an
  Axios error and has \<open>code\<close>, \<open>clientVersion\<close> and the Prisma name, and \<open>Error\<close> exactly
  when it is neither.
\<close>

theorem error_response_shape:
  assumes fw: "\<forall>n. (res_status_json (JNum n) = None) = (100 \<le> n \<and> n \<le> 999)"
  shows
  "(\<not> truthy (get_prop e ''status'') \<longrightarrow>
      observabilityErrorMiddleware res_status_json e =
        Inr \<lparr>res_status = JNum 500, res_body_message = get_prop e ''message'',
             res_body_type = ErrorType_value (classifyError e)\<rparr>) \<and>
   (\<forall>n. get_prop e ''status'' = JNum n \<and> 100 \<le> n \<and> n \<le> 999 \<longrightarrow>
      observabilityErrorMiddleware res_status_json e =
        Inr \<lparr>res_status = JNum n, res_body_message = get_prop e ''message'',
             res_body_type = ErrorType_value (classifyError e)\<rparr>) \<and>
   (\<forall>n. get_prop e ''status'' = JNum n \<and> n \<noteq> 0 \<and> (n < 100 \<or> 999 < n) \<longrightarrow>
      (\<exists>x. observabilityErrorMiddleware res_status_json e = Inl x)) \<and>
   ((\<exists>r. observabilityErrorMiddleware res_status_json e = Inr r) \<longleftrightarrow>
      res_status_json (if truthy (get_prop e ''status'') then get_prop e ''status''
                       else JNum 500) = None) \<and>
   (\<forall>r. observabilityErrorMiddleware res_status_json e = Inr r \<longrightarrow>
      res_status r = (if truthy (get_prop e ''status'') then get_prop e ''status''
                      else JNum 500) \<and>
      res_body_message r = get_prop e ''message'' \<and>
      res_body_type r = ErrorType_value (classifyError e)) \<and>
   (ErrorType_value (classifyError e) = ''AxiosError'' \<longleftrightarrow>
      has_prop e ''isAxiosError'' \<and> truthy (get_prop e ''isAxiosError'')) \<and>
   (ErrorType_value (classifyError e) = ''PrismaClientKnownRequestError'' \<longleftrightarrow>
      \<not> (has_prop e ''isAxiosError'' \<and> truthy (get_prop e ''isAxiosError'')) \<and>
      has_prop e ''code'' \<and> has_prop e ''clientVersion'' \<and>
      get_prop e ''name'' = JStr ''PrismaClientKnownRequestError'') \<and>
   (ErrorType_value (classifyError e) = ''Error'' \<longleftrightarrow>
      \<not> (has_prop e ''isAxiosError'' \<and> truthy (get_prop e ''isAxiosError'')) \<and>
      \<not> (has_prop e ''code'' \<and> has_prop e ''clientVersion'' \<and>
         get_prop e ''name'' = JStr ''PrismaClientKnownRequestError''))"
proof -
  from fw have ok500: "res_status_json (JNum 500) = None"
    by simp
  have st0: "\<not> truthy (get_prop e ''status'') \<longrightarrow>
      observabilityErrorMiddleware res_status_json e =
        Inr \<lparr>res_status = JNum 500, res_body_message = get_prop e ''message'',
             res_body_type = ErrorType_value (classifyError e)\<rparr>"
    by (simp add: observabilityErrorMiddleware_def Let_def ok500)
  have st1: "\<forall>n. get_prop e ''status'' = JNum n \<and> 100 \<le> n \<and> n \<le> 999 \<longrightarrow>
      observabilityErrorMiddleware res_status_json e =
        Inr \<lparr>res_status = JNum n, res_body_message = get_prop e ''message'',
             res_body_type = ErrorType_value (classifyError e)\<rparr>"
  proof (intro allI impI)
    fix n assume a: "get_prop e ''status'' = JNum n \<and> 100 \<le> n \<and> n \<le> 999"
    with fw have "res_status_json (JNum n) = None" by simp
    with a show "observabilityErrorMiddleware res_status_json e =
        Inr \<lparr>res_status = JNum n, res_body_message = get_prop e ''message'',
             res_body_type = ErrorType_value (classifyError e)\<rparr>"
      by (simp add: observabilityErrorMiddleware_def Let_def)
  qed
  have st2: "\<forall>n. get_prop e ''status'' = JNum n \<and> n \<noteq> 0 \<and> (n < 100 \<or> 999 < n) \<longrightarrow>
      (\<exists>x. observabilityErrorMiddleware res_status_json e = Inl x)"
  proof (intro allI impI)
    fix n assume a: "get_prop e ''status'' = JNum n \<and> n \<noteq> 0 \<and> (n < 100 \<or> 999 < n)"
    with fw have "res_status_json (JNum n) \<noteq> None" by auto
    then obtain x where "res_status_json (JNum n) = Some x" by auto
    with a show "\<exists>x. observabilityErrorMiddleware res_status_json e = Inl x"
      by (simp add: observabilityErrorMiddleware_def Let_def)
  qed
  have sent: "(\<exists>r. observabilityErrorMiddleware res_status_json e = Inr r) \<longleftrightarrow>
      res_status_json (if truthy (get_prop e ''status'') then get_prop e ''status''
                       else JNum 500) = None"
    by (simp add: observabilityErrorMiddleware_def Let_def split: option.splits)
  have body: "\<forall>r. observabilityErrorMiddleware res_status_json e = Inr r \<longrightarrow>
      res_status r = (if truthy (get_prop e ''status'') then get_prop e ''status''
                      else JNum 500) \<and>
      res_body_message r = get_prop e ''message'' \<and>
      res_body_type r = ErrorType_value (classifyError e)"
    by (auto simp: observabilityErrorMiddleware_def Let_def split: option.splits)
  from st0 st1 st2 sent body classify_axios [of e] classify_prisma [of e] classify_generic [of e]
  show ?thesis
    by (intro conjI)
qed

theorem error_response_shape_witness:
  "(\<forall>n. (range_checked_status_json (JNum n) = None) = (100 \<le> n \<and> n \<le> 999)) \<and>
   get_prop error_not_found ''status'' = JNum 404 \<and>
   observabilityErrorMiddleware range_checked_status_json error_not_found =
     Inr \<lparr>res_status = JNum 404, res_body_message = JStr ''no such user'',
          res_body_type = ''Error''\<rparr> \<and>
   \<not> truthy (get_prop error_plain ''status'') \<and>
   observabilityErrorMiddleware range_checked_status_json error_plain =
     Inr \<lparr>res_status = JNum 500, res_body_message = JStr ''boom'', res_body_type = ''Error''\<rparr> \<and>
   \<not> truthy (get_prop error_status_null ''status'') \<and>
   observabilityErrorMiddleware range_checked_status_json error_status_null =
     Inr \<lparr>res_status = JNum 500, res_body_message = JStr ''boom'', res_body_type = ''Error''\<rparr> \<and>
   get_prop error_status_1000 ''status'' = JNum 1000 \<and>
   (\<exists>x. observabilityErrorMiddleware range_checked_status_json error_status_1000 = Inl x)"
proof -
  have fw: "\<forall>n. (range_checked_status_json (JNum n) = None) = (100 \<le> n \<and> n \<le> 999)"
    by (simp add: range_checked_status_json_def)
  have a: "get_prop error_not_found ''status'' = JNum 404"
    "get_prop error_not_found ''message'' = JStr ''no such user''"
    "\<not> has_prop error_not_found ''isAxiosError''" "\<not> has_prop error_not_found ''code''"
    by (simp_all add: error_not_found_def get_prop_def has_prop_def)
  have b: "\<not> truthy (get_prop error_plain ''status'')"
    "get_prop error_plain ''message'' = JStr ''boom''"
    "\<not> has_prop error_plain ''isAxiosError''" "\<not> has_prop error_plain ''code''"
    by (simp_all add: error_plain_def get_prop_def has_prop_def)
  have c: "\<not> truthy (get_prop error_status_null ''status'')"
    "get_prop error_status_null ''message'' = JStr ''boom''"
    "\<not> has_prop error_status_null ''isAxiosError''" "\<not> has_prop error_status_null ''code''"
    by (simp_all add: error_status_null_def get_prop_def has_prop_def)
  have d: "get_prop error_status_1000 ''status'' = JNum 1000"
    by (simp add: error_status_1000_def get_prop_def)
  note t = error_response_shape [OF fw]
  from t [of error_not_found] a
  have r1: "observabilityErrorMiddleware range_checked_status_json error_not_found =
     Inr \<lparr>res_status = JNum 404, res_body_message = JStr ''no such user'',
          res_body_type = ''Error''\<rparr>"
    by simp
  from t [of error_plain] b
  have r2: "observabilityErrorMiddleware range_checked_status_json error_plain =
     Inr \<lparr>res_status = JNum 500, res_body_message = JStr ''boom'', res_body_type = ''Error''\<rparr>"
    by simp
  from t [of error_status_null] c
  have r3: "observabilityErrorMiddleware range_checked_status_json error_status_null =
     Inr \<lparr>res_status = JNum 500, res_body_message = JStr ''boom'', res_body_type = ''Error''\<rparr>"
    by simp
  from t [of error_status_1000] d
  have r4: "\<exists>x. observabilityErrorMiddleware range_checked_status_json error_status_1000 = Inl x"
    by simp
  from fw a(1) r1 b(1) r2 c(1) r3 d r4 show ?thesis
    by (intro conjI)
qed

text \<open>
  C10 as stated fails on an error whose \<open>status\<close> is the number 0 and which has both the
  Axios flag and the Prisma fields: the status sent is 500, not the field's value, and
  the type is \<open>AxiosError\<close> although the Prisma condition holds.
\<close>

theorem error_response_status0_axios_first:
  "get_prop error_status0_axios_prisma ''status'' = JNum 0 \<and>
   has_prop error_status0_axios_prisma ''code'' \<and>
   has_prop error_status0_axios_prisma ''clientVersion'' \<and>
   get_prop error_status0_axios_prisma ''name'' = JStr ''PrismaClientKnownRequestError'' \<and>
   observabilityErrorMiddleware range_checked_status_json error_status0_axios_prisma =
     Inr \<lparr>res_status = JNum 500, res_body_message = JStr ''boom'',
          res_body_type = ''AxiosError''\<rparr>"
  by (simp add: error_status0_axios_prisma_def observabilityErrorMiddleware_def Let_def
      classifyError_def isAxiosError_def has_prop_def get_prop_def
      range_checked_status_json_def)

section \<open>Span lifecycle of the guarded operations\<close>

lemma apply_calls_Cons: "apply_calls (c # cs) s = apply_calls cs (apply_call c s)"
  by (simp add: apply_calls_def)

lemma apply_calls_end_calls:
  "sp_end_calls (apply_calls calls s) = sp_end_calls s + length (filter (\<lambda>c. c = EndCall) calls)"
proof (induction calls arbitrary: s)
  case Nil
  then show ?case by (simp add: apply_calls_def)
next
  case (Cons c cs)
  then show ?case
    by (cases c) (simp_all add: apply_calls_Cons end_span_def setStatus_def recordException_def)
qed

lemma apply_calls_exceptions:
  "sp_exceptions (apply_calls calls s) = sp_exceptions s @ recorded calls"
proof (induction calls arbitrary: s)
  case Nil
  then show ?case by (simp add: apply_calls_def recorded_def)
next
  case (Cons c cs)
  then show ?case
    by (cases c)
      (simp_all add: apply_calls_Cons recorded_def end_span_def setStatus_def recordException_def)
qed



text \<open>
  The number of \<open>end\<close> calls on a settled span: the wrapper's one and the handler's own.
\<close>

lemma settle_span_end_calls:
  "sp_end_calls (settle_span outcome (apply_calls calls (startSpan n k a p)))
     = Suc (length (filter (\<lambda>c. c = EndCall) calls))"
  by (simp add: settle_span_def end_span_def setStatus_def recordException_def
      apply_calls_end_calls startSpan_def split: sum.splits thrown.splits)




lemma settle_span_ok:
  "sp_status_code (settle_span (Inr v) (apply_calls calls (startSpan n k a p))) = OK"
  "sp_exceptions (settle_span (Inr v) (apply_calls calls (startSpan n k a p))) = recorded calls"
  by (simp_all add: settle_span_def end_span_def setStatus_def apply_calls_exceptions
      startSpan_def)

lemma consumer_span_start:
  "\<exists>n k a p. consumer_span serviceName msg queue = startSpan n k a p"
  by (simp add: consumer_span_def Let_def) blast

text \<open>
  A handler that ends the span it was given makes the count of \<open>end\<close> calls two: the
  wrapper ends the span once whatever the handler did.
\<close>

lemma handler_end_counts:
  "sp_end_calls (hd (run_spans (wrapConsumer serviceName msg queue hc)))
     = Suc (length (filter (\<lambda>c. c = EndCall)
         (run_span_calls (hc (consumer_span serviceName msg queue)))))"
proof -
  obtain n k a p where s: "consumer_span serviceName msg queue = startSpan n k a p"
    using consumer_span_start by blast
  show ?thesis
    by (simp add: wrapConsumer_def Let_def s settle_span_end_calls)
qed

lemma handler_end_example:
  "sp_end_calls (hd (run_spans
     (wrapConsumer ''svc'' msg_orders ''orders'' (\<lambda>s. throwing_after_end err_boom)))) = 2"
  by (simp add: handler_end_counts throwing_after_end_def)




section \<open>The carrier of a socket event\<close>

lemma map_of_obj_define: "map_of (obj_define obj k v) = (map_of obj)(k \<mapsto> v)"
  by (simp add: obj_define_def update_conv')

lemma map_of_obj_set:
  "k \<noteq> ''__proto__'' \<Longrightarrow> map_of (obj_set obj k v) = (map_of obj)(k \<mapsto> v)"
  by (simp add: obj_set_def update_conv')

lemma map_of_obj_spread: "map_of (obj_spread a b) = map_of a ++ map_of (rev b)"
proof (induction b arbitrary: a)
  case Nil
  then show ?case by (simp add: obj_spread_def)
next
  case (Cons x xs)
  have "obj_spread a (x # xs) = obj_spread (obj_define a (fst x) (snd x)) xs"
    by (simp add: obj_spread_def)
  then show ?case
    by (cases x) (simp add: Cons.IH map_of_obj_define map_add_upd_left fun_eq_iff map_add_def split: option.splits)
qed

text \<open>
  C1 (as amended). The carrier handed to extraction is a merge of the three sources, key
  by key: a truthy query parameter \<open>traceparent\<close> or \<open>tracestate\<close> wins for its key;
  otherwise an entry of the payload's \<open>_trace\<close> field for the key wins (the last one,
  should the field list a name twice); otherwise the value is that of the handshake
  headers, under their lowercased names.
\<close>

theorem carrier_merges_sources:
  "map_of (extractTraceContext toLowerCase socket args) k =
     (if k = ''tracestate'' \<and> query_truthy (query_param socket ''tracestate'')
      then Some (JStr (query_String (query_param socket ''tracestate'')))
      else if k = ''traceparent'' \<and> query_truthy (query_param socket ''traceparent'')
      then Some (JStr (query_String (query_param socket ''traceparent'')))
      else (case (case payload_trace args of
                    None \<Rightarrow> None
                  | Some t \<Rightarrow> map_of (rev (own_entries t)) k) of
              Some v \<Rightarrow> Some v
            | None \<Rightarrow> (case socket_headers socket of
                         None \<Rightarrow> None
                       | Some headers \<Rightarrow> map_of (headersToCarrier toLowerCase headers) k)))"
  by (simp add: extractTraceContext_def Let_def map_of_obj_set map_of_obj_spread map_add_def
      split: option.splits)

text \<open>
  C1 as stated fails: with a \<open>traceparent\<close> header, a payload \<open>_trace\<close> that carries
  only \<open>tracestate\<close>, and a \<open>traceparent\<close> query parameter, the carrier holds the query's
  \<open>traceparent\<close> next to the payload's \<open>tracestate\<close>, where taking the first matching
  source alone would give the payload's entry only.
\<close>

theorem carrier_not_first_match:
  "extractTraceContext ascii_toLowerCase socket_with_headers args_with_trace =
     [(''traceparent'', JStr traceparent_b), (''tracestate'', JStr ''vendor=1'')] \<and>
   first_match_carrier ascii_toLowerCase socket_with_headers args_with_trace = [(''tracestate'', JStr ''vendor=1'')] \<and>
   extractTraceContext ascii_toLowerCase socket_with_headers args_with_trace
     \<noteq> first_match_carrier ascii_toLowerCase socket_with_headers args_with_trace"
  by code_simp

section \<open>Initialising an interceptor twice\<close>

lemma rabbitmq_reinit_noop:
  assumes "rb_class st \<noteq> NoPrototype"
  shows "initRabbitMQInterceptor o2 e2 (initRabbitMQInterceptor o1 e1 st)
           = initRabbitMQInterceptor o1 e1 st"
proof -
  have "rb_isPatched (initRabbitMQInterceptor o1 e1 st)"
    using assms
    by (cases "rb_class st")
      (auto simp: initRabbitMQInterceptor_def patchRabbitMQ_def Let_def split: option.splits)
  then show ?thesis
    by (simp add: initRabbitMQInterceptor_def [of o2 e2])
qed

lemma rabbitmq_send_one_span:
  "\<exists>r. rabbit_send (Suc 0)
          (initRabbitMQInterceptor o2 e2 (initRabbitMQInterceptor o1 e1 (rabbit_fresh f)))
          inject queue msg options = Some r \<and>
        length (run_spans r) = Suc (length (run_spans (f queue msg (with_headers options (inject (options_headers options)))))) \<and>
        length (run_metrics r) = Suc (length (run_metrics (f queue msg (with_headers options (inject (options_headers options))))))"
  by (simp add: rabbit_send_def initRabbitMQInterceptor_def patchRabbitMQ_def rabbit_fresh_def Let_def)

lemma connect_twice:
  "connect (initSocketIOInterceptor lc o2 e2 (initSocketIOInterceptor lc o1 e1 new_io)) info
     = wrapSocket lc (wrapSocket lc (new_socket info))"
  by (simp add: connect_def initSocketIOInterceptor_def new_io_def)

lemma fire_twice:
  assumes "\<not> reserved_event event"
  shows "fire (initSocketIOInterceptor lc o2 e2 (initSocketIOInterceptor lc o1 e1 new_io))
      (socket_on event h (connect (initSocketIOInterceptor lc o2 e2 (initSocketIOInterceptor lc o1 e1 new_io)) info))
      event args
   = [wrappedHandler lc info event (wrappedHandler lc info event h) (resolve_serviceName o2 e2) args]"
proof -
  have n: "io_serviceName (initSocketIOInterceptor lc o2 e2 (initSocketIOInterceptor lc o1 e1 new_io))
            = resolve_serviceName o2 e2"
    by (simp add: initSocketIOInterceptor_def)
  show ?thesis
    unfolding fire_def connect_twice n
    using assms
    by (simp add: socket_on_def wrapSocket_def new_socket_def Let_def native_on_def)
qed

lemma wrapped_counts:
  "length (run_spans (wrappedHandler lc info event h n args)) = Suc (length (run_spans (h n args)))"
  "length (run_metrics (wrappedHandler lc info event h n args)) = Suc (length (run_metrics (h n args)))"
  by (simp_all add: wrappedHandler_def Let_def)

lemma fire_once:
  assumes "\<not> reserved_event event"
  shows "fire (initSocketIOInterceptor lc o1 e1 new_io)
      (socket_on event h (connect (initSocketIOInterceptor lc o1 e1 new_io) info)) event args
   = [wrappedHandler lc info event h (resolve_serviceName o1 e1) args]"
proof -
  have n: "io_serviceName (initSocketIOInterceptor lc o1 e1 new_io) = resolve_serviceName o1 e1"
    by (simp add: initSocketIOInterceptor_def)
  have c: "connect (initSocketIOInterceptor lc o1 e1 new_io) info = wrapSocket lc (new_socket info)"
    by (simp add: connect_def initSocketIOInterceptor_def new_io_def)
  show ?thesis
    unfolding fire_def c n
    using assms
    by (simp add: socket_on_def wrapSocket_def new_socket_def Let_def native_on_def)
qed

text \<open>
  C5 fails for the Socket.IO interceptor. After \<open>initSocketIOInterceptor\<close> has run twice
  on a server, a handler registered for \<open>message\<close> on a new connection is wrapped twice:
  one emitted event calls one listener, whose run holds two spans and two metric
  records although the handler itself produces none.
\<close>

theorem socketio_reinit_double_wraps:
  "map (\<lambda>r. (length (run_spans r), length (run_metrics r)))
     (fire (initSocketIOInterceptor toLowerCase (Some ''svc'') None
              (initSocketIOInterceptor toLowerCase (Some ''svc'') None new_io))
        (socket_on ''message'' (\<lambda>n a. returning JUndefined)
           (connect (initSocketIOInterceptor toLowerCase (Some ''svc'') None
                       (initSocketIOInterceptor toLowerCase (Some ''svc'') None new_io)) socket_a))
        ''message'' [])
   = [(2, 2)]"
proof -
  have "\<not> reserved_event ''message''"
    by (simp add: reserved_event_def)
  then show ?thesis
    by (simp add: fire_twice wrapped_counts returning_def)
qed

section \<open>Console fallback of the log pipeline\<close>

text \<open>
  The structured logger falls back to the console: with remote export enabled, a write
  at or above the minimum level whose emission fails, or which finds the export path
  marked unavailable, appends one console line even when console output is off.
\<close>

lemma structured_logger_console_fallback:
  assumes "LOG_LEVEL_PRIORITY (lg_logLevel lg) \<le> LOG_LEVEL_PRIORITY level"
    and "lg_enableOtlpLogs lg"
    and "\<not> ot_available (lw_otel w) \<or> \<not> ot_backend_up (lw_otel w)"
  shows "lw_console (writeLog toLowerCase lg ti now level message meta w) =
           lw_console w @
             [(console_stream_of level, createLogEntry toLowerCase lg ti now level message meta)]"
  using assms
  by (auto simp: writeLog_def Let_def isOtelLoggerAvailable_def emitOtelLog_def
      writeToConsole_def)

lemma structured_logger_example:
  "length (lw_console (writeLog toLowerCase logger_otlp_only no_trace ''2024-01-15T10:30:00.000Z'' LError
      ''order failed'' (Some [(''orderId'', JNum 17)]) world_backend_down)) = 1"
  by (simp add: structured_logger_console_fallback logger_otlp_only_def world_backend_down_def)

text \<open>
  C3 fails for the Winston transport. With remote export enabled and console output
  off, a log call made while the backend rejects the export, or while the export path
  is marked unavailable, returns having written no console line and exported nothing:
  the entry is lost.
\<close>

theorem winston_no_console_fallback:
  "winston_log toLowerCase winston_otlp_only no_trace ''2024-01-15T10:30:00.000Z''
      info_order_failed world_backend_down
     = Inr \<lparr>lw_otel = \<lparr>ot_available = False, ot_backend_up = False, ot_emitted = []\<rparr>,
            lw_console = []\<rparr> \<and>
   winston_log toLowerCase winston_otlp_only no_trace ''2024-01-15T10:30:00.000Z''
      info_order_failed world_unavailable
     = Inr \<lparr>lw_otel = \<lparr>ot_available = False, ot_backend_up = False, ot_emitted = []\<rparr>,
            lw_console = []\<rparr>"
proof -
  have e: "extractMessage (winston_message info_order_failed) info_order_failed
             = Inr (JStr ''order failed'')"
    by code_simp
  have l: "winston_level info_order_failed = JStr ''error''"
    by code_simp
  show ?thesis
    by (simp add: winston_log_def winston_entry_def sendToOtlp_def e l Let_def
        winston_otlp_only_def world_backend_down_def world_unavailable_def
        isOtelLoggerAvailable_def emitOtelLog_def)
qed

section \<open>Redaction of sensitive fields\<close>

lemma map_of_map_keyed:
  "map_of (map (\<lambda>kv. (fst kv, g (fst kv) (snd kv))) l) k = map_option (g k) (map_of l k)"
  by (induction l) auto

lemma mask_fields_map:
  "mask_fields lc sf fs =
     map (\<lambda>kv. (fst kv, if isSensitive lc sf (fst kv) then REDACTED else mask_value lc sf (snd kv)))
       (filter (\<lambda>kv. fst kv \<noteq> ''__proto__'') fs)"
  by (induction fs) auto

lemma mask_items_map:
  "mask_items lc sf i xs =
     map (\<lambda>kv. (fst kv, if isSensitive lc sf (fst kv) then REDACTED else mask_value lc sf (snd kv)))
       (index_from i xs)"
  by (induction xs arbitrary: i) auto

lemma mask_elems_map: "mask_elems lc sf xs = map (mask_elem lc sf) xs"
  by (induction xs) auto

lemma index_from_map:
  "index_from i (map f xs) = map (\<lambda>kv. (fst kv, f (snd kv))) (index_from i xs)"
  by (induction xs arbitrary: i) auto

lemma member_mask_fields:
  "map_of (mask_fields lc sf fs) k =
     (if k = ''__proto__'' then None
      else map_option (\<lambda>v. if isSensitive lc sf k then REDACTED else mask_value lc sf v)
             (map_of fs k))"
  by (induction fs) auto

lemma member_mask_items:
  "map_of (mask_items lc sf 0 xs) k =
     map_option (\<lambda>v. if isSensitive lc sf k then REDACTED else mask_value lc sf v)
       (map_of (index_entries xs) k)"
  unfolding mask_items_map index_entries_def
  by (rule map_of_map_keyed [of "\<lambda>k v. if isSensitive lc sf k then REDACTED else mask_value lc sf v"])

lemma member_mask_elems:
  "map_of (index_entries (mask_elems lc sf xs)) k
     = map_option (mask_elem lc sf) (map_of (index_entries xs) k)"
  unfolding mask_elems_map index_entries_def index_from_map
  by (rule map_of_map_keyed [of "\<lambda>k v. mask_elem lc sf v"])

lemma get_path_masked:
  assumes "\<forall>n \<in> set p. \<not> isSensitive lc sf n \<and> n \<noteq> ''__proto__''"
    and "get_path v p = Some w"
  shows "(get_path (mask_value lc sf v) p = Some (mask_value lc sf w) \<or>
          get_path (mask_value lc sf v) p = Some (mask_elem lc sf w)) \<and>
         (get_path (mask_elem lc sf v) p = Some (mask_value lc sf w) \<or>
          get_path (mask_elem lc sf v) p = Some (mask_elem lc sf w))"
  using assms
proof (induction p arbitrary: v)
  case Nil
  then show ?case by simp
next
  case (Cons k ks)
  from Cons.prems(2) obtain u where u: "get_member v k = Some u" and rest: "get_path u ks = Some w"
    by (auto split: option.splits)
  from Cons.prems(1) have nk: "\<not> isSensitive lc sf k" and np: "k \<noteq> ''__proto__''"
    and nks: "\<forall>n \<in> set ks. \<not> isSensitive lc sf n \<and> n \<noteq> ''__proto__''"
    by simp_all
  note IH = Cons.IH [OF nks rest]
  show ?case
  proof (cases v)
    case (JObj fs)
    with u have "get_member (mask_value lc sf v) k = Some (mask_value lc sf u)"
      "get_member (mask_elem lc sf v) k = Some (mask_value lc sf u)"
      using nk np by (simp_all add: member_mask_fields)
    with IH show ?thesis by simp
  next
    case (JArr xs)
    with u have "get_member (mask_value lc sf v) k = Some (mask_elem lc sf u)"
      "get_member (mask_elem lc sf v) k = Some (mask_value lc sf u)"
      using nk by (simp_all add: member_mask_elems member_mask_items)
    with IH show ?thesis by simp
  qed (use u in simp_all)
qed

lemma mask_scalar: "is_scalar s \<Longrightarrow> mask_value lc sf s = s \<and> mask_elem lc sf s = s"
  by (cases s) simp_all

lemma get_path_append:
  "get_path v (p @ q) = (case get_path v p of None \<Rightarrow> None | Some w \<Rightarrow> get_path w q)"
  by (induction p arbitrary: v) (auto split: option.splits)

lemma mask_redacts:
  "fields_redacted lc sf (mask_fields lc sf fs)"
  "fields_redacted lc sf (mask_items lc sf i xs)"
  "fully_redacted lc sf (mask_value lc sf v)"
  "elems_redacted lc sf (mask_elems lc sf ys)"
  "fully_redacted lc sf (mask_elem lc sf z)"
  by (induction lc sf fs and lc sf i xs and lc sf v and lc sf ys and lc sf z
      rule: mask_fields_mask_items_mask_value_mask_elems_mask_elem.induct)
    (simp_all add: REDACTED_def)

text \<open>
  The comparison lowercases both sides; a key whose lowercased name contains a
  configured field that is written in lower case is therefore sensitive.
\<close>

lemma contains_field_isSensitive:
  assumes "field \<in> set sf" and "lc field = field" and "sublist field (lc key)"
  shows "isSensitive lc sf key"
proof -
  from assms(2,3) have "sublist (lc field) (lc key)"
    by simp
  with assms(1) show ?thesis
    unfolding isSensitive_def list_ex_iff by (rule bexI [rotated])
qed

lemma map_of_rev_distinct: "distinct (map fst l) \<Longrightarrow> map_of (rev l) = map_of l"
proof (induction l)
  case Nil
  then show ?case by simp
next
  case (Cons x xs)
  then have IH: "map_of (rev xs) = map_of xs" and nin: "fst x \<notin> fst ` set xs"
    by simp_all
  from nin have "map_of xs (fst x) = None"
    by (simp add: map_of_eq_None_iff)
  then show ?case
    by (cases x) (auto simp: IH fun_eq_iff map_add_def split: option.splits)
qed

text \<open>The masked mapping has the keys of the data, in order, except \<open>__proto__\<close>.\<close>

lemma keys_maskSensitiveData:
  "map fst (maskSensitiveData lc sf data) = filter (\<lambda>k. k \<noteq> ''__proto__'') (map fst data)"
  by (simp add: maskSensitiveData_def mask_fields_map comp_def filter_map)

lemma proto_not_masked_key: "''__proto__'' \<notin> fst ` set (maskSensitiveData lc sf data)"
proof -
  have "''__proto__'' \<notin> set (map fst (maskSensitiveData lc sf data))"
    unfolding keys_maskSensitiveData by simp
  then show ?thesis by simp
qed

lemma obj_assign_spread: "''__proto__'' \<notin> fst ` set b \<Longrightarrow> obj_assign a b = obj_spread a b"
proof (induction b arbitrary: a)
  case Nil
  then show ?case by (simp add: obj_assign_def obj_spread_def)
next
  case (Cons x xs)
  from Cons.prems have x: "fst x \<noteq> ''__proto__''" and xs: "''__proto__'' \<notin> fst ` set xs"
    by auto
  have "obj_assign a (x # xs) = obj_assign (obj_set a (fst x) (snd x)) xs"
    by (simp add: obj_assign_def)
  also have "\<dots> = obj_spread (obj_set a (fst x) (snd x)) xs"
    using xs by (rule Cons.IH)
  also have "obj_set a (fst x) (snd x) = obj_define a (fst x) (snd x)"
    using x by (simp add: obj_set_def obj_define_def)
  finally show ?case by (simp add: obj_spread_def)
qed

lemma map_of_opt_field:
  "k \<noteq> ''__proto__'' \<Longrightarrow>
   map_of (opt_field k v entry) = (case v of None \<Rightarrow> map_of entry
     | Some s \<Rightarrow> if s \<noteq> [] then (map_of entry)(k \<mapsto> JStr s) else map_of entry)"
  by (simp add: opt_field_def map_of_obj_set split: option.splits)

lemma assign_lookup:
  assumes "distinct (map fst data)" and "map_of data k \<noteq> None" and "k \<noteq> ''__proto__''"
  shows "map_of (obj_assign entry (maskSensitiveData lc sf data)) k
           = map_of (maskSensitiveData lc sf data) k"
proof -
  from assms(1) have d: "distinct (map fst (maskSensitiveData lc sf data))"
    by (simp add: keys_maskSensitiveData)
  from assms(2,3) obtain v where "map_of (maskSensitiveData lc sf data) k = Some v"
    by (auto simp: maskSensitiveData_def member_mask_fields)
  then show ?thesis
    by (simp add: obj_assign_spread [OF proto_not_masked_key] map_of_obj_spread
        map_of_rev_distinct [OF d] map_add_def)
qed

lemma log_entry_meta:
  assumes "distinct (map fst data)" and "map_of data k \<noteq> None" and "k \<noteq> ''__proto__''"
  shows "map_of (createLogEntry lc lg ti now level message (Some data)) k
           = map_of (maskSensitiveData lc (lg_sensitiveFields lg) data) k"
  using assign_lookup [OF assms] by (simp add: createLogEntry_def Let_def)

lemma extractMeta_no_proto: "map_of (extractMeta info) ''__proto__'' = None"
  by (auto simp: extractMeta_def map_of_eq_None_iff)

lemma winston_entry_meta:
  assumes "distinct (map fst (extractMeta info))" and "map_of (extractMeta info) k \<noteq> None"
    and "winston_entry lc t ti now info = Inr entry"
  shows "map_of entry k = map_of (maskSensitiveData lc (wt_sensitiveFields t) (extractMeta info)) k"
proof -
  from assms(2) have ne: "extractMeta info \<noteq> []" by auto
  from assms(2) have np: "k \<noteq> ''__proto__''"
    using extractMeta_no_proto [of info] by auto
  from assms(3) ne obtain e0 where
    "entry = obj_assign e0 (maskSensitiveData lc (wt_sensitiveFields t) (extractMeta info))"
    by (auto simp: winston_entry_def Let_def split: sum.splits)
  then show ?thesis
    using assign_lookup [OF assms(1,2) np] by simp
qed

text \<open>
  What holds of the redaction for every name but \<open>__proto__\<close>. In the metadata produced
  from \<open>data\<close>: every object, at any depth and also inside arrays, has the marker under
  each of its sensitive keys; the keys of the mapping are those of \<open>data\<close> except
  \<open>__proto__\<close>; the value of a sensitive key of any object reached along names that are
  neither sensitive nor \<open>__proto__\<close> is the marker; a scalar reached along such names is
  unchanged; \<open>{password: "secret", user: {token: "abc"}}\<close> with fields \<open>password\<close>,
  \<open>token\<close> gives \<open>{password: "[REDACTED]", user: {token: "[REDACTED]"}}\<close>; and the log
  entry of either sink holds, under every metadata key other than \<open>__proto__\<close>, the
  value so produced.
\<close>

lemma maskSensitiveData_redacts_other_keys:
  "fully_redacted lc sf (JObj (maskSensitiveData lc sf data)) \<and>
   map fst (maskSensitiveData lc sf data) = filter (\<lambda>k. k \<noteq> ''__proto__'') (map fst data) \<and>
   (\<forall>p fs k v.
      (\<forall>n \<in> set p. \<not> isSensitive lc sf n \<and> n \<noteq> ''__proto__'') \<and>
      get_path (JObj data) p = Some (JObj fs) \<and>
      map_of fs k = Some v \<and> isSensitive lc sf k \<and> k \<noteq> ''__proto__'' \<longrightarrow>
      get_path (JObj (maskSensitiveData lc sf data)) (p @ [k]) = Some (JStr ''[REDACTED]'')) \<and>
   (\<forall>p s.
      (\<forall>n \<in> set p. \<not> isSensitive lc sf n \<and> n \<noteq> ''__proto__'') \<and>
      get_path (JObj data) p = Some s \<and> is_scalar s \<longrightarrow>
      get_path (JObj (maskSensitiveData lc sf data)) p = Some s) \<and>
   maskSensitiveData ascii_toLowerCase [''password'', ''token''] meta_example =
     [(''password'', JStr ''[REDACTED]''), (''user'', JObj [(''token'', JStr ''[REDACTED]'')])] \<and>
   (\<forall>k. distinct (map fst data) \<and> map_of data k \<noteq> None \<and> k \<noteq> ''__proto__'' \<longrightarrow>
      map_of (createLogEntry lc lg ti now level message (Some data)) k
        = map_of (maskSensitiveData lc (lg_sensitiveFields lg) data) k) \<and>
   (\<forall>k entry. distinct (map fst (extractMeta info)) \<and> map_of (extractMeta info) k \<noteq> None \<and>
      winston_entry lc t ti now info = Inr entry \<longrightarrow>
      map_of entry k
        = map_of (maskSensitiveData lc (wt_sensitiveFields t) (extractMeta info)) k)"
proof -
  have out: "JObj (maskSensitiveData lc sf data) = mask_value lc sf (JObj data)"
    by (simp add: maskSensitiveData_def)
  have a: "fully_redacted lc sf (JObj (maskSensitiveData lc sf data))"
    unfolding out by (rule mask_redacts)
  have b: "map fst (maskSensitiveData lc sf data)
             = filter (\<lambda>k. k \<noteq> ''__proto__'') (map fst data)"
    by (rule keys_maskSensitiveData)
  have c: "get_path (JObj (maskSensitiveData lc sf data)) (p @ [k]) = Some (JStr ''[REDACTED]'')"
    if "\<forall>n \<in> set p. \<not> isSensitive lc sf n \<and> n \<noteq> ''__proto__''"
      and "get_path (JObj data) p = Some (JObj fs)"
      and "map_of fs k = Some v" and "isSensitive lc sf k" and "k \<noteq> ''__proto__''" for p fs k v
  proof -
    from get_path_masked [OF that(1,2)]
    have "get_path (mask_value lc sf (JObj data)) p = Some (JObj (mask_fields lc sf fs))"
      by simp
    then show ?thesis
      unfolding out using that(3,4,5)
      by (simp add: get_path_append member_mask_fields REDACTED_def)
  qed
  have d: "get_path (JObj (maskSensitiveData lc sf data)) p = Some s"
    if "\<forall>n \<in> set p. \<not> isSensitive lc sf n \<and> n \<noteq> ''__proto__''"
      and "get_path (JObj data) p = Some s"
      and "is_scalar s" for p s
    using get_path_masked [OF that(1,2)] mask_scalar [OF that(3), of lc sf]
    unfolding out by simp
  have e: "maskSensitiveData ascii_toLowerCase [''password'', ''token''] meta_example =
     [(''password'', JStr ''[REDACTED]''), (''user'', JObj [(''token'', JStr ''[REDACTED]'')])]"
    by code_simp
  have f: "map_of (createLogEntry lc lg ti now level message (Some data)) k
        = map_of (maskSensitiveData lc (lg_sensitiveFields lg) data) k"
    if "distinct (map fst data)" and "map_of data k \<noteq> None" and "k \<noteq> ''__proto__''" for k
    using that by (rule log_entry_meta)
  have g: "map_of entry k
        = map_of (maskSensitiveData lc (wt_sensitiveFields t) (extractMeta info)) k"
    if "distinct (map fst (extractMeta info))" and "map_of (extractMeta info) k \<noteq> None"
      and "winston_entry lc t ti now info = Inr entry" for k entry
    using that by (rule winston_entry_meta)
  from c have c': "\<forall>p fs k v.
      (\<forall>n \<in> set p. \<not> isSensitive lc sf n \<and> n \<noteq> ''__proto__'') \<and>
      get_path (JObj data) p = Some (JObj fs) \<and>
      map_of fs k = Some v \<and> isSensitive lc sf k \<and> k \<noteq> ''__proto__'' \<longrightarrow>
      get_path (JObj (maskSensitiveData lc sf data)) (p @ [k]) = Some (JStr ''[REDACTED]'')"
    by blast
  from d have d': "\<forall>p s.
      (\<forall>n \<in> set p. \<not> isSensitive lc sf n \<and> n \<noteq> ''__proto__'') \<and>
      get_path (JObj data) p = Some s \<and> is_scalar s \<longrightarrow>
      get_path (JObj (maskSensitiveData lc sf data)) p = Some s"
    by blast
  from f have f': "\<forall>k. distinct (map fst data) \<and> map_of data k \<noteq> None \<and> k \<noteq> ''__proto__'' \<longrightarrow>
      map_of (createLogEntry lc lg ti now level message (Some data)) k
        = map_of (maskSensitiveData lc (lg_sensitiveFields lg) data) k"
    by blast
  from g have g': "\<forall>k entry. distinct (map fst (extractMeta info)) \<and>
      map_of (extractMeta info) k \<noteq> None \<and> winston_entry lc t ti now info = Inr entry \<longrightarrow>
      map_of entry k
        = map_of (maskSensitiveData lc (wt_sensitiveFields t) (extractMeta info)) k"
    by blast
  from a b c' d' e f' g' show ?thesis
    by (intro conjI)
qed

lemma redaction_example:
  "get_path (JObj (maskSensitiveData ascii_toLowerCase [''password'', ''Token''] meta_nested))
     [''accounts'', ''0'', ''apiToken''] = Some (JStr ''[REDACTED]'') \<and>
   get_path (JObj (maskSensitiveData ascii_toLowerCase [''password'', ''Token''] meta_nested))
     [''accounts'', ''0'', ''name''] = Some (JStr ''ann'') \<and>
   map_of (createLogEntry ascii_toLowerCase logger_otlp_only no_trace ''2024-01-15T10:30:00.000Z''
             LInfo ''login'' (Some meta_example)) ''password'' = Some (JStr ''[REDACTED]'') \<and>
   winston_entry ascii_toLowerCase winston_otlp_only no_trace ''2024-01-15T10:30:00.000Z'' info_login
     = Inr [(''timestamp'', JStr ''2024-01-15T10:30:00.000Z''), (''level'', JStr ''info''),
            (''message'', JStr ''login''), (''service'', JStr ''shop''),
            (''environment'', JStr ''production''), (''password'', JStr ''[REDACTED]''),
            (''user'', JStr ''ann'')]"
  by code_simp

text \<open>
  C4 fails for a metadata key named \<open>__proto__\<close>, which \<open>JSON.parse\<close> produces as an
  ordinary property. For \<open>{"__proto__": 5, "user": "ann"}\<close> with fields \<open>password\<close>,
  \<open>token\<close> the key is not sensitive and its value is a scalar, yet the masked mapping
  and the log entry of either sink have no such key: the value is lost instead of being
  left unchanged.
\<close>

theorem maskSensitiveData_drops_proto_key:
  "get_path (JObj meta_proto) [''__proto__''] = Some (JNum 5) \<and>
   isSensitive ascii_toLowerCase [''password'', ''token''] ''__proto__'' = False \<and>
   maskSensitiveData ascii_toLowerCase [''password'', ''token''] meta_proto
     = [(''user'', JStr ''ann'')] \<and>
   get_path (JObj (maskSensitiveData ascii_toLowerCase [''password'', ''token''] meta_proto))
     [''__proto__''] = None \<and>
   createLogEntry ascii_toLowerCase logger_otlp_only no_trace ''2024-01-15T10:30:00.000Z''
       LInfo ''login'' (Some meta_proto)
     = [(''timestamp'', JStr ''2024-01-15T10:30:00.000Z''), (''level'', JStr ''info''),
        (''message'', JStr ''login''), (''service'', JStr ''shop''),
        (''environment'', JStr ''production''), (''context'', JStr ''Orders''),
        (''user'', JStr ''ann'')] \<and>
   winston_entry ascii_toLowerCase winston_otlp_only no_trace ''2024-01-15T10:30:00.000Z'' info_proto
     = Inr [(''timestamp'', JStr ''2024-01-15T10:30:00.000Z''), (''level'', JStr ''info''),
            (''message'', JStr ''login''), (''service'', JStr ''shop''),
            (''environment'', JStr ''production''), (''user'', JStr ''ann'')]"
  by code_simp

section \<open>Redaction does not write to its argument\<close>

lemma extends_refl: "extends k h h"
  by (simp add: extends_def)

lemma extends_trans: "extends k h h1 \<Longrightarrow> extends k h1 h2 \<Longrightarrow> extends k h h2"
  by (simp add: extends_def)

lemma extends_alloc: "k \<le> length h \<Longrightarrow> extends k h (h @ [c])"
  by (simp add: extends_def)

lemma length_set_prop: "length (set_prop h m key v) = length h"
  by (simp add: set_prop_def split: option.splits cell.splits)

lemma extends_set_prop: "k \<le> m \<Longrightarrow> extends k h (set_prop h m key v)"
  by (simp add: extends_def set_prop_def split: option.splits cell.splits)

lemma list_all_update: "list_all P fs \<Longrightarrow> P (key, v) \<Longrightarrow> list_all P (AList.update key v fs)"
  by (induction fs) auto

lemma list_all_list_update: "list_all P xs \<Longrightarrow> P y \<Longrightarrow> list_all P (xs[i := y])"
  by (induction xs arbitrary: i) (auto split: nat.splits)

lemma built_fresh_alloc:
  "k \<le> length h \<Longrightarrow> built_fresh k h \<Longrightarrow> refs_from k c \<Longrightarrow> built_fresh k (h @ [c])"
  by (simp add: built_fresh_def)

lemma built_fresh_set_prop:
  assumes "k \<le> m" and "built_fresh k h" and "val_from k v"
  shows "built_fresh k (set_prop h m key v)"
proof (cases "cell_at h m")
  case None
  with assms show ?thesis by (simp add: set_prop_def)
next
  case (Some c)
  then have m: "m < length h" and c: "c = h ! m"
    by (auto simp: cell_at_def split: if_splits)
  show ?thesis
  proof (cases c)
    case (ArrCell xs)
    with Some assms show ?thesis by (simp add: set_prop_def)
  next
    case (ObjCell fs)
    from assms(1) m have "drop k h ! (m - k) = h ! m" and "m - k < length (drop k h)"
      by simp_all
    then have "h ! m \<in> set (drop k h)"
      using nth_mem [of "m - k" "drop k h"] by simp
    with assms(2) c ObjCell have "refs_from k (ObjCell fs)"
      by (simp add: built_fresh_def list_all_iff)
    then have "refs_from k (ObjCell (AList.update key v fs))"
      using assms(3) by (simp add: list_all_update)
    with assms(1,2) Some ObjCell show ?thesis
      by (simp add: set_prop_def built_fresh_def drop_update_swap list_all_list_update)
  qed
qed

lemma val_from_mono: "k \<le> l \<Longrightarrow> val_from l v \<Longrightarrow> val_from k v"
  by (cases v) auto

lemma list_all_val_from_mono: "k \<le> l \<Longrightarrow> list_all (val_from l) vs \<Longrightarrow> list_all (val_from k) vs"
  by (induction vs) (auto intro: val_from_mono)

lemma extends_length: "extends k h h' \<Longrightarrow> length h \<le> length h'"
  by (simp add: extends_def)

lemma extends_weaken: "extends l h h' \<Longrightarrow> k \<le> l \<Longrightarrow> extends k h h'"
  by (metis extends_def min.absorb1 take_take)

lemma maskSensitiveDataH_frame:
  "maskSensitiveDataH n lc sf h a = Some (h', r) \<Longrightarrow> k \<le> length h \<Longrightarrow> built_fresh k h \<Longrightarrow>
     extends k h h' \<and> r = length h \<and> r < length h' \<and> built_fresh k h'"
  "mask_entriesH n lc sf h m es = Some h'' \<Longrightarrow> k \<le> m \<Longrightarrow> m < length h \<Longrightarrow> built_fresh k h \<Longrightarrow>
     extends k h h'' \<and> built_fresh k h''"
  "mask_valueH n lc sf h v = Some (h', v') \<Longrightarrow> k \<le> length h \<Longrightarrow> built_fresh k h \<Longrightarrow>
     extends k h h' \<and> val_from (length h) v' \<and> built_fresh k h'"
  "mask_elemsH n lc sf h xs = Some (h', ys) \<Longrightarrow> k \<le> length h \<Longrightarrow> built_fresh k h \<Longrightarrow>
     extends k h h' \<and> list_all (val_from (length h)) ys \<and> built_fresh k h'"
  "mask_elemH n lc sf h x = Some (h', y) \<Longrightarrow> k \<le> length h \<Longrightarrow> built_fresh k h \<Longrightarrow>
     extends k h h' \<and> val_from (length h) y \<and> built_fresh k h'"
proof (induction n lc sf h a and n lc sf h m es and n lc sf h v and n lc sf h xs and n lc sf h x
    arbitrary: h' r k and h'' k and h' v' k and h' ys k and h' y k
    rule: maskSensitiveDataH_mask_entriesH_mask_valueH_mask_elemsH_mask_elemH.induct)
  case (1 lc sf h a)
  then show ?case by simp
next
  case (2 n lc sf h a)
  from "2.prems"(1) obtain c where c: "cell_at h a = Some c"
    and run: "mask_entriesH n lc sf (h @ [ObjCell []]) (length h) (entriesH c) = Some h'"
    and r: "r = length h"
    by (auto split: option.splits)
  have "built_fresh k (h @ [ObjCell []])"
    using "2.prems"(2,3) by (simp add: built_fresh_alloc)
  with "2.IH" [OF c run "2.prems"(2)]
  have e: "extends k (h @ [ObjCell []]) h'" and f: "built_fresh k h'"
    by simp_all
  from e have "length h < length h'"
    by (simp add: extends_def)
  moreover from extends_alloc [OF "2.prems"(2)] e have "extends k h h'"
    by (rule extends_trans)
  ultimately show ?case using r f by simp
next
  case (3 n lc sf h m)
  then show ?case by (simp add: extends_refl)
next
  case (4 n lc sf h m kv rest)
  show ?case
  proof (cases "isSensitive lc sf (fst kv)")
    case True
    let ?h1 = "set_prop h m (fst kv) (Prim (PStr ''[REDACTED]''))"
    from "4.prems"(1) True have run: "mask_entriesH n lc sf ?h1 m rest = Some h''"
      by simp
    have "built_fresh k ?h1"
      using "4.prems"(2,4) by (simp add: built_fresh_set_prop)
    with "4.IH"(1) [OF True run "4.prems"(2)] "4.prems"(3)
    have "extends k ?h1 h''" and f: "built_fresh k h''"
      by (simp_all add: length_set_prop)
    with extends_set_prop [OF "4.prems"(2)] have "extends k h h''"
      by (blast intro: extends_trans)
    with f show ?thesis by simp
  next
    case False
    from "4.prems"(1) False obtain h1 v1 where val: "mask_valueH n lc sf h (snd kv) = Some (h1, v1)"
      and run: "mask_entriesH n lc sf (set_prop h1 m (fst kv) v1) m rest = Some h''"
      by (auto split: option.splits)
    from "4.prems"(2,3) have kl: "k \<le> length h" by simp
    from "4.IH"(2) [OF False val kl "4.prems"(4)]
    have e1: "extends k h h1" and v1: "val_from (length h) v1" and f1: "built_fresh k h1"
      by simp_all
    from v1 kl have "val_from k v1" by (rule val_from_mono [rotated])
    with f1 "4.prems"(2) have f2: "built_fresh k (set_prop h1 m (fst kv) v1)"
      by (simp add: built_fresh_set_prop)
    from e1 "4.prems"(3) have "m < length (set_prop h1 m (fst kv) v1)"
      by (simp add: length_set_prop extends_def)
    from "4.IH"(3) [OF False val, simplified, OF run "4.prems"(2) this f2]
    have "extends k (set_prop h1 m (fst kv) v1) h''" and f: "built_fresh k h''"
      by simp_all
    with e1 extends_set_prop [OF "4.prems"(2)] have "extends k h h''"
      by (blast intro: extends_trans)
    with f show ?thesis by simp
  qed
next
  case (5 n lc sf h p)
  then show ?case by (auto simp: extends_refl)
next
  case (6 n lc sf h a)
  from "6.prems"(1) obtain c where c: "cell_at h a = Some c"
    by (auto split: option.splits)
  show ?case
  proof (cases c)
    case (ObjCell fs)
    with "6.prems"(1) c obtain r where run: "maskSensitiveDataH n lc sf h a = Some (h', r)" and v': "v' = Ref r"
      by (auto split: option.splits)
    from "6.IH"(1) [OF c ObjCell run "6.prems"(2,3)] v' show ?thesis
      by simp
  next
    case (ArrCell xs)
    with "6.prems"(1) c obtain h1 ys where run: "mask_elemsH n lc sf h xs = Some (h1, ys)"
      and h': "h' = h1 @ [ArrCell ys]" and v': "v' = Ref (length h1)"
      by (auto split: option.splits)
    from "6.IH"(2) [OF c ArrCell run "6.prems"(2,3)]
    have e1: "extends k h h1" and ys: "list_all (val_from (length h)) ys" and f1: "built_fresh k h1"
      by simp_all
    from e1 have l: "length h \<le> length h1" by (rule extends_length)
    with "6.prems"(2) have kl: "k \<le> length h1" by simp
    from ys "6.prems"(2) have "list_all (val_from k) ys"
      by (rule list_all_val_from_mono [rotated])
    with f1 kl have "built_fresh k h'"
      unfolding h' by (simp add: built_fresh_alloc)
    moreover from e1 extends_alloc [OF kl] have "extends k h h'"
      unfolding h' by (rule extends_trans)
    ultimately show ?thesis using v' l by simp
  qed
next
  case (7 n lc sf h)
  then show ?case by (auto simp: extends_refl)
next
  case (8 n lc sf h x xs)
  from "8.prems"(1) obtain h1 y1 h2 ys2 where el: "mask_elemH n lc sf h x = Some (h1, y1)"
    and run: "mask_elemsH n lc sf h1 xs = Some (h2, ys2)"
    and res: "h' = h2" "ys = y1 # ys2"
    by (auto split: option.splits)
  from "8.IH"(1) [OF el "8.prems"(2,3)]
  have e1: "extends k h h1" and y1: "val_from (length h) y1" and f1: "built_fresh k h1"
    by simp_all
  from e1 have l: "length h \<le> length h1" by (rule extends_length)
  with "8.prems"(2) have kl: "k \<le> length h1" by simp
  from "8.IH"(2) [OF el, simplified, OF run kl f1]
  have e2: "extends k h1 h2" and ys2: "list_all (val_from (length h1)) ys2" and f2: "built_fresh k h2"
    by simp_all
  from ys2 l have "list_all (val_from (length h)) ys2"
    by (rule list_all_val_from_mono [rotated])
  moreover from e1 e2 have "extends k h h2" by (rule extends_trans)
  ultimately show ?case using res y1 f2 by simp
next
  case (9 n lc sf h p)
  then show ?case by (auto simp: extends_refl)
next
  case (10 n lc sf h a)
  from "10.prems"(1) obtain r where run: "maskSensitiveDataH n lc sf h a = Some (h', r)" and y: "y = Ref r"
    by (auto split: option.splits)
  from "10.IH" [OF run "10.prems"(2,3)] y show ?case
    by simp
qed

lemma take_set_prop: "k \<le> m \<Longrightarrow> take k (set_prop h m key v) = take k h"
  by (simp add: set_prop_def split: option.splits cell.splits)

lemma cell_at_take: "cell_at (take k h) a = Some c \<Longrightarrow> cell_at h a = Some c"
  by (auto simp: cell_at_def split: if_splits)

lemma extends_take: "extends k h h' \<Longrightarrow> take k h' = take k h"
  by (simp add: extends_def)

lemma maskSensitiveDataH_returns:
  "depth_le n (take k h) a \<Longrightarrow> k \<le> length h \<Longrightarrow> built_fresh k h \<Longrightarrow>
     \<exists>h' r. maskSensitiveDataH n lc sf h a = Some (h', r)"
  "list_all (\<lambda>kv. value_depth_le n (take k h) (snd kv)) es \<Longrightarrow> k \<le> m \<Longrightarrow> m < length h \<Longrightarrow>
     built_fresh k h \<Longrightarrow> \<exists>h'. mask_entriesH n lc sf h m es = Some h'"
  "value_depth_le n (take k h) v \<Longrightarrow> k \<le> length h \<Longrightarrow> built_fresh k h \<Longrightarrow>
     \<exists>h' v'. mask_valueH n lc sf h v = Some (h', v')"
  "list_all (elem_depth_le n (take k h)) xs \<Longrightarrow> k \<le> length h \<Longrightarrow> built_fresh k h \<Longrightarrow>
     \<exists>h' ys. mask_elemsH n lc sf h xs = Some (h', ys)"
  "elem_depth_le n (take k h) x \<Longrightarrow> k \<le> length h \<Longrightarrow> built_fresh k h \<Longrightarrow>
     \<exists>h' y. mask_elemH n lc sf h x = Some (h', y)"
proof (induction n lc sf h a and n lc sf h m es and n lc sf h v and n lc sf h xs and n lc sf h x
    arbitrary: k and k and k and k and k
    rule: maskSensitiveDataH_mask_entriesH_mask_valueH_mask_elemsH_mask_elemH.induct)
  case (1 lc sf h a)
  then show ?case by simp
next
  case (2 n lc sf h a)
  from "2.prems"(1) obtain c where c0: "cell_at (take k h) a = Some c"
    and es: "list_all (\<lambda>kv. value_depth_le n (take k h) (snd kv)) (entriesH c)"
    by (auto split: option.splits)
  from c0 have c: "cell_at h a = Some c" by (rule cell_at_take)
  have t: "take k (h @ [ObjCell []]) = take k h"
    using "2.prems"(2) by simp
  have f: "built_fresh k (h @ [ObjCell []])"
    using "2.prems"(2,3) by (simp add: built_fresh_alloc)
  from "2.IH" [OF c, of k] es t "2.prems"(2) f
  obtain h' where "mask_entriesH n lc sf (h @ [ObjCell []]) (length h) (entriesH c) = Some h'"
    by auto
  with c show ?case by simp
next
  case (3 n lc sf h m)
  then show ?case by simp
next
  case (4 n lc sf h m kv rest)
  from "4.prems"(1) have v: "value_depth_le n (take k h) (snd kv)"
    and rest: "list_all (\<lambda>kv. value_depth_le n (take k h) (snd kv)) rest"
    by simp_all
  show ?case
  proof (cases "isSensitive lc sf (fst kv)")
    case True
    let ?h1 = "set_prop h m (fst kv) (Prim (PStr ''[REDACTED]''))"
    have "take k ?h1 = take k h" using "4.prems"(2) by (rule take_set_prop)
    moreover have "built_fresh k ?h1"
      using "4.prems"(2,4) by (simp add: built_fresh_set_prop)
    ultimately obtain h' where "mask_entriesH n lc sf ?h1 m rest = Some h'"
      using "4.IH"(1) [OF True, of k] rest "4.prems"(2,3) by (auto simp: length_set_prop)
    with True show ?thesis by simp
  next
    case False
    from "4.prems"(2,3) have kl: "k \<le> length h" by simp
    from "4.IH"(2) [OF False v kl "4.prems"(4)]
    obtain h1 v1 where val: "mask_valueH n lc sf h (snd kv) = Some (h1, v1)"
      by auto
    from maskSensitiveDataH_frame(3) [OF val kl "4.prems"(4)]
    have e1: "extends k h h1" and v1: "val_from (length h) v1" and f1: "built_fresh k h1"
      by simp_all
    let ?h2 = "set_prop h1 m (fst kv) v1"
    from v1 kl have "val_from k v1" by (rule val_from_mono [rotated])
    with f1 "4.prems"(2) have f2: "built_fresh k ?h2"
      by (simp add: built_fresh_set_prop)
    from e1 "4.prems"(3) have m2: "m < length ?h2"
      by (simp add: length_set_prop extends_def)
    have "take k ?h2 = take k h"
      using take_set_prop [OF "4.prems"(2)] extends_take [OF e1] by simp
    with rest have rest2: "list_all (\<lambda>kv. value_depth_le n (take k ?h2) (snd kv)) rest"
      by simp
    from "4.IH"(3) [OF False val, simplified, OF rest2 "4.prems"(2) m2 f2]
    obtain h' where "mask_entriesH n lc sf ?h2 m rest = Some h'"
      by auto
    with False val show ?thesis by simp
  qed
next
  case (5 n lc sf h p)
  then show ?case by simp
next
  case (6 n lc sf h a)
  from "6.prems"(1) obtain c where c0: "cell_at (take k h) a = Some c"
    by (auto split: option.splits)
  from c0 have c: "cell_at h a = Some c" by (rule cell_at_take)
  show ?case
  proof (cases c)
    case (ObjCell fs)
    with "6.prems"(1) c0 have "depth_le n (take k h) a" by simp
    from "6.IH"(1) [OF c ObjCell this "6.prems"(2,3)] c ObjCell show ?thesis
      by auto
  next
    case (ArrCell xs)
    with "6.prems"(1) c0 have "list_all (elem_depth_le n (take k h)) xs" by simp
    from "6.IH"(2) [OF c ArrCell this "6.prems"(2,3)] c ArrCell show ?thesis
      by auto
  qed
next
  case (7 n lc sf h)
  then show ?case by simp
next
  case (8 n lc sf h x xs)
  from "8.prems"(1) have x: "elem_depth_le n (take k h) x"
    and xs: "list_all (elem_depth_le n (take k h)) xs"
    by simp_all
  from "8.IH"(1) [OF x "8.prems"(2,3)]
  obtain h1 y1 where el: "mask_elemH n lc sf h x = Some (h1, y1)"
    by auto
  from maskSensitiveDataH_frame(5) [OF el "8.prems"(2,3)]
  have e1: "extends k h h1" and f1: "built_fresh k h1"
    by simp_all
  from e1 "8.prems"(2) have kl: "k \<le> length h1" by (simp add: extends_def)
  from xs extends_take [OF e1] have xs1: "list_all (elem_depth_le n (take k h1)) xs"
    by simp
  from "8.IH"(2) [OF el, simplified, OF xs1 kl f1]
  obtain h2 ys2 where "mask_elemsH n lc sf h1 xs = Some (h2, ys2)"
    by auto
  with el show ?case by simp
next
  case (9 n lc sf h p)
  then show ?case by simp
next
  case (10 n lc sf h a)
  from "10.prems"(1) have "depth_le n (take k h) a" by simp
  from "10.IH" [OF this "10.prems"(2,3)] show ?case
    by auto
qed

text \<open>
  C9. Whenever \<open>maskSensitiveData\<close> returns on the object at \<open>a\<close>, every cell of the
  caller's store is as it was (the argument, its nested objects and its arrays
  included), the result is a cell that did not exist before, and the cells built by the
  call refer only to cells built by the call; and the call does return when the data
  nests at most as deep as the fuel.
\<close>

theorem maskSensitiveData_leaves_argument:
  "(\<forall>h' r. maskSensitiveDataH n lc sf h a = Some (h', r) \<longrightarrow>
      take (length h) h' = h \<and> r = length h \<and> r < length h' \<and> built_fresh (length h) h') \<and>
   (depth_le n h a \<longrightarrow> (\<exists>h' r. maskSensitiveDataH n lc sf h a = Some (h', r)))"
proof -
  have f: "built_fresh (length h) h"
    by (simp add: built_fresh_def)
  have "take (length h) h' = h \<and> r = length h \<and> r < length h' \<and> built_fresh (length h) h'"
    if "maskSensitiveDataH n lc sf h a = Some (h', r)" for h' r
    using maskSensitiveDataH_frame(1) [OF that order_refl f] by (simp add: extends_def)
  moreover have "\<exists>h' r. maskSensitiveDataH n lc sf h a = Some (h', r)" if "depth_le n h a"
    using maskSensitiveDataH_returns(1) [of n "length h" h a lc sf] that f by simp
  ultimately show ?thesis by blast
qed

theorem maskSensitiveData_leaves_argument_witness:
  "depth_le 2 heap_example 0 \<and>
   (\<exists>h' r. maskSensitiveDataH 2 ascii_toLowerCase [''password'', ''token''] heap_example 0 = Some (h', r) \<and>
      take 4 h' = heap_example \<and> r = 4 \<and> built_fresh 4 h')"
proof -
  have d: "depth_le 2 heap_example 0"
    by code_simp
  have l: "length heap_example = 4"
    by (simp add: heap_example_def)
  from maskSensitiveData_leaves_argument [of 2 ascii_toLowerCase "[''password'', ''token'']" heap_example 0] d l
  show ?thesis
    by auto
qed

section \<open>Round trip through the carrier\<close>

lemma split_on_no_sep: "c \<notin> set w \<Longrightarrow> split_on c w = [w]"
  by (induction w) auto

lemma split_on_sep: "c \<notin> set w \<Longrightarrow> split_on c (w @ c # rest) = w # split_on c rest"
  by (induction w) auto

lemma dash_not_hex: "\<not> is_hex CHR ''-''"
  by (simp add: is_hex_def)

lemma hex_no_dash: "list_all is_hex w \<Longrightarrow> CHR ''-'' \<notin> set w"
  using dash_not_hex by (auto simp: list_all_iff)

lemma flags_of_props:
  "CHR ''-'' \<notin> set (flags_of ctx)" "length (flags_of ctx) = 2" "list_all is_hex (flags_of ctx)"
  "(flags_of ctx = ''01'') = traceFlags ctx"
  by (simp_all add: flags_of_def is_hex_def)

lemma parse_traceparent_of:
  assumes "valid_TraceContext ctx"
  shows "parse_traceparent (traceparent_of ctx) = Some (traceId ctx, spanId ctx, traceFlags ctx)"
proof -
  from assms have t: "CHR ''-'' \<notin> set (traceId ctx)" and s: "CHR ''-'' \<notin> set (spanId ctx)"
    by (simp_all add: valid_TraceContext_def hex_no_dash)
  have v: "CHR ''-'' \<notin> set ''00''" "length ''00'' = 2" "list_all is_hex ''00''"
    by (simp_all add: is_hex_def)
  have shape: "traceparent_of ctx =
      ''00'' @ CHR ''-'' # (traceId ctx @ CHR ''-'' # (spanId ctx @ CHR ''-'' # flags_of ctx))"
    by (simp add: traceparent_of_def flags_of_def)
  have "split_on CHR ''-'' (traceparent_of ctx) =
      ''00'' # split_on CHR ''-'' (traceId ctx @ CHR ''-'' # (spanId ctx @ CHR ''-'' # flags_of ctx))"
    unfolding shape using v(1) by (rule split_on_sep)
  also have "split_on CHR ''-'' (traceId ctx @ CHR ''-'' # (spanId ctx @ CHR ''-'' # flags_of ctx)) =
      traceId ctx # split_on CHR ''-'' (spanId ctx @ CHR ''-'' # flags_of ctx)"
    using t by (rule split_on_sep)
  also have "split_on CHR ''-'' (spanId ctx @ CHR ''-'' # flags_of ctx) =
      spanId ctx # split_on CHR ''-'' (flags_of ctx)"
    using s by (rule split_on_sep)
  also have "split_on CHR ''-'' (flags_of ctx) = [flags_of ctx]"
    using flags_of_props(1) by (rule split_on_no_sep)
  finally have sp: "split_on CHR ''-'' (traceparent_of ctx) =
      [''00'', traceId ctx, spanId ctx, flags_of ctx]" .
  from assms have "length (traceId ctx) = 32" "list_all is_hex (traceId ctx)"
    "length (spanId ctx) = 16" "list_all is_hex (spanId ctx)"
    by (simp_all add: valid_TraceContext_def)
  with v(2,3) flags_of_props(2,3,4) [of ctx] show ?thesis
    unfolding parse_traceparent_def sp by simp
qed

lemma get_prop_obj_set:
  "k \<noteq> ''__proto__'' \<Longrightarrow> get_prop (obj_set obj k v) k' = (if k' = k then v else get_prop obj k')"
  by (simp add: get_prop_def obj_set_def update_conv')

text \<open>
  C6. Injecting a valid TraceContext into a carrier (fresh or not) and extracting the
  carrier gives a context with the same \<open>traceId\<close> and \<open>spanId\<close>.
\<close>

theorem inject_extract_roundtrip:
  assumes "valid_TraceContext ctx"
  shows "\<exists>ctx'. extractRabbitMQContext (injectRabbitMQContext (Some ctx) headers) = Some ctx' \<and>
           traceId ctx' = traceId ctx \<and> spanId ctx' = spanId ctx"
proof -
  let ?c = "injectRabbitMQContext (Some ctx) headers"
  have "get_prop ?c ''traceparent'' = JStr (traceparent_of ctx)"
    by (cases "traceState ctx")
      (simp_all add: injectRabbitMQContext_def propagation_inject_def Let_def get_prop_obj_set)
  then show ?thesis
    using parse_traceparent_of [OF assms]
    by (simp add: extractRabbitMQContext_def propagation_extract_def)
qed

theorem inject_extract_roundtrip_witness:
  "valid_TraceContext ctx_example \<and>
   (\<exists>ctx'. extractRabbitMQContext (injectRabbitMQContext (Some ctx_example) []) = Some ctx' \<and>
      traceId ctx' = ''0af7651916cd43dd8448eb211c80319c'' \<and> spanId ctx' = ''b7ad6b7169203331'')"
proof -
  have v: "valid_TraceContext ctx_example"
    by code_simp
  from inject_extract_roundtrip [OF v, of "[]"] v show ?thesis
    by (simp add: ctx_example_def)
qed

end
